theory Spec2Isabelle
  imports Main "HOL-Library.AList" "HOL-Library.Sublist"
begin

section \<open>Values of the program\<close>

text \<open>
  A Python \<open>str\<close> is a sequence of Unicode code points, and the labels the scraper looks
  for are Greek, so text is a list of code points (\<open>nat\<close>), not a list of bytes. The keys of
  the program's own dictionaries (\<open>header_map\<close>) are ASCII literals of the source and stay
  \<open>string\<close>.
\<close>

type_synonym ustring = "nat list"

text \<open>An ASCII literal of the source as code points.\<close>

definition ascii :: "string \<Rightarrow> ustring" where
  "ascii s = map of_char s"

text \<open>The exceptions the modelled code can raise.\<close>

datatype error = KeyError | IndexError | ValueError | RequestException

definition bind_res :: "error + 'a \<Rightarrow> ('a \<Rightarrow> error + 'b) \<Rightarrow> error + 'b" where
  "bind_res m f = (case m of Inl e \<Rightarrow> Inl e | Inr v \<Rightarrow> f v)"

text \<open>\<open>needle in haystack\<close> on strings: contiguous containment.\<close>

fun py_in :: "'a list \<Rightarrow> 'a list \<Rightarrow> bool" where
  "py_in xs [] = (xs = [])"
| "py_in xs (y # ys) = (prefix xs (y # ys) \<or> py_in xs ys)"

text \<open>
  A \<open>dict\<close> is an association list in insertion order: assigning to a key that is present
  replaces its value in place, assigning to a new key appends it.
\<close>

definition dict_set :: "'k \<Rightarrow> 'v \<Rightarrow> ('k \<times> 'v) list \<Rightarrow> ('k \<times> 'v) list" where
  "dict_set k v d = AList.update k v d"

definition dict_in :: "'k \<Rightarrow> ('k \<times> 'v) list \<Rightarrow> bool" where
  "dict_in k d = (map_of d k \<noteq> None)"

definition dict_item :: "('k \<times> 'v) list \<Rightarrow> 'k \<Rightarrow> error + 'v" where
  "dict_item d k = (case map_of d k of None \<Rightarrow> Inl KeyError | Some v \<Rightarrow> Inr v)"

definition dict_get :: "('k \<times> 'v) list \<Rightarrow> 'k \<Rightarrow> 'v \<Rightarrow> 'v" where
  "dict_get d k dflt = (case map_of d k of None \<Rightarrow> dflt | Some v \<Rightarrow> v)"

definition dict_values :: "('k \<times> 'v) list \<Rightarrow> 'v list" where
  "dict_values d = map snd d"

text \<open>\<open>max\<close> of a sequence raises \<open>ValueError\<close> on the empty one.\<close>

definition py_max :: "nat list \<Rightarrow> error + nat" where
  "py_max xs = (case xs of [] \<Rightarrow> Inl ValueError | x # r \<Rightarrow> Inr (fold max r x))"

section \<open>The parsed document\<close>

text \<open>
  BeautifulSoup is outside the repository; a document is modelled by the views the scraper
  asks of it. A row (\<open>tr\<close>) is the sequence of its \<open>th\<close> and \<open>td\<close> cells in document order
  (\<open>find_all(['th', 'td'])\<close>); \<open>find_all('td')\<close> is the subsequence of the \<open>td\<close> cells. A cell
  carries its \<open>get_text(strip=True)\<close>. A table is the sequence of its rows
  (\<open>find_all('tr')\<close>).
\<close>

datatype tag_name = TH | TD

record cell =
  cell_name :: tag_name
  cell_text :: ustring

type_synonym row = "cell list"
type_synonym table = "row list"

definition th_td_cells :: "row \<Rightarrow> cell list" where
  "th_td_cells r = r"

definition td_cells :: "row \<Rightarrow> cell list" where
  "td_cells r = filter (\<lambda>c. cell_name c = TD) r"

text \<open>
  A link is the first \<open>a\<close> element of an item (\<open>li.find('a')\<close>) with its stripped text and its
  \<open>onclick\<close> attribute (empty when absent). An item (\<open>li\<close>) carries its \<open>title\<close> attribute
  (empty when absent) and its list of classes (empty when absent).
\<close>

record link =
  link_text :: ustring
  link_onclick :: ustring

record item =
  li_title :: ustring
  li_class :: "ustring list"
  li_a :: "link option"

text \<open>
  The views of a document: its tables (\<open>find_all('table')\<close>), the items of its pagination
  control (\<open>find('ul', class_='pagination')\<close>, \<open>None\<close> when there is none), the options of the
  municipality selector and the hidden inputs of the search form.
\<close>

record option_tag =
  opt_value :: ustring
  opt_text :: ustring

record hidden_input =
  inp_name :: "ustring option"
  inp_value :: ustring

record soup =
  tables :: "table list"
  pagination :: "item list option"
  municipality_select :: "option_tag list option"
  hidden_inputs :: "hidden_input list"

text \<open>One discovered installation: the dictionary \<open>_extract_antenna_data\<close> builds.\<close>

record antenna =
  sequence :: ustring
  position_code :: ustring
  category :: ustring
  company :: ustring
  address :: ustring
  municipality :: ustring

type_synonym header_map = "(string \<times> nat) list"

section \<open>Header Mapper (\<open>_map_table_headers\<close>, \<open>_validate_header_map\<close>)\<close>

text \<open>The label fragments of the source, as code points.\<close>

definition lbl_kod :: ustring where
  \<comment> \<open>Kappa omega delta full-stop\<close>
  "lbl_kod = [922, 969, 948, 46]"

definition lbl_thesis :: ustring where
  \<comment> \<open>theta (small) epsilon-tonos sigma eta final-sigma\<close>
  "lbl_thesis = [952, 941, 963, 951, 962]"

definition lbl_category :: ustring where
  "lbl_category = [922, 945, 964, 951, 947, 959, 961, 943, 945]"

definition lbl_company :: ustring where
  "lbl_company = [917, 964, 945, 953, 961, 943, 945]"

definition lbl_address :: ustring where
  "lbl_address = [916, 953, 949, 973, 952, 965, 957, 963, 951]"

definition lbl_municipality :: ustring where
  "lbl_municipality = [916, 942, 956, 959, 962]"

definition lbl_kod_thesis :: ustring where
  \<comment> \<open>Kappa omega delta full-stop space Theta (capital) epsilon-tonos sigma eta final-sigma\<close>
  "lbl_kod_thesis = [922, 969, 948, 46, 32, 920, 941, 963, 951, 962]"

text \<open>The body of the loop over the header cells: the \<open>if\<close>/\<open>elif\<close> chain of the source.\<close>

definition assign_header :: "nat \<Rightarrow> ustring \<Rightarrow> header_map \<Rightarrow> header_map" where
  "assign_header i txt hm =
     (if py_in lbl_kod txt \<and> py_in lbl_thesis txt then dict_set ''position_code'' i hm
      else if py_in lbl_category txt then dict_set ''category'' i hm
      else if py_in lbl_company txt then dict_set ''company'' i hm
      else if py_in lbl_address txt then dict_set ''address'' i hm
      else if py_in lbl_municipality txt then dict_set ''municipality'' i hm
      else if py_in lbl_kod_thesis txt then dict_set ''sequence'' i hm
      else hm)"

definition map_table_headers :: "row \<Rightarrow> header_map" where
  "map_table_headers header_row =
     fold (\<lambda>(i, c). assign_header i (cell_text c)) (enumerate 0 (th_td_cells header_row)) []"

definition required_headers :: "string list" where
  "required_headers = [''position_code'', ''company'', ''address'', ''municipality'']"

definition validate_header_map :: "header_map \<Rightarrow> bool" where
  "validate_header_map hm =
     (let missing_headers = filter (\<lambda>h. \<not> dict_in h hm) required_headers
      in if missing_headers \<noteq> [] then False else True)"

section \<open>Row Extractor (\<open>_extract_antenna_data\<close>)\<close>

text \<open>\<open>cells[i].get_text(strip=True)\<close>: an index past the end raises \<open>IndexError\<close>.\<close>

definition cell_at :: "cell list \<Rightarrow> nat \<Rightarrow> error + ustring" where
  "cell_at cells i = (if i < length cells then Inr (cell_text (cells ! i)) else Inl IndexError)"

text \<open>
  The dictionary display evaluates its values in the order written, so the first failing
  access decides the exception. An optional field is read only when its key is present.
\<close>

definition extract_antenna_data :: "cell list \<Rightarrow> header_map \<Rightarrow> error + antenna" where
  "extract_antenna_data cells hm =
     bind_res (if dict_in ''sequence'' hm then cell_at cells (dict_get hm ''sequence'' 0)
               else Inr []) (\<lambda>v1.
     bind_res (bind_res (dict_item hm ''position_code'') (cell_at cells)) (\<lambda>v2.
     bind_res (if dict_in ''category'' hm then cell_at cells (dict_get hm ''category'' 0)
               else Inr []) (\<lambda>v3.
     bind_res (bind_res (dict_item hm ''company'') (cell_at cells)) (\<lambda>v4.
     bind_res (bind_res (dict_item hm ''address'') (cell_at cells)) (\<lambda>v5.
     bind_res (bind_res (dict_item hm ''municipality'') (cell_at cells)) (\<lambda>v6.
     Inr \<lparr>sequence = v1, position_code = v2, category = v3,
          company = v4, address = v5, municipality = v6\<rparr>))))))"

section \<open>Table Locator (\<open>_parse_table_results\<close>, \<open>_parse_results\<close>)\<close>

text \<open>The body of the loop over the data rows.\<close>

definition parse_row :: "header_map \<Rightarrow> row \<Rightarrow> antenna list \<Rightarrow> error + antenna list" where
  "parse_row hm r antennas =
     (let cells = td_cells r
      in bind_res (py_max (dict_values hm)) (\<lambda>m.
           if length cells > m
           then bind_res (extract_antenna_data cells hm) (\<lambda>antenna_data.
                  Inr (antennas @ [antenna_data]))
           else Inr antennas))"

fun parse_rows :: "header_map \<Rightarrow> row list \<Rightarrow> antenna list \<Rightarrow> error + antenna list" where
  "parse_rows hm [] antennas = Inr antennas"
| "parse_rows hm (r # rs) antennas = bind_res (parse_row hm r antennas) (parse_rows hm rs)"

definition parse_table_results :: "table \<Rightarrow> error + antenna list" where
  "parse_table_results rows =
     (if length rows < 2 then Inr []
      else let hm = map_table_headers (rows ! 0)
           in if \<not> validate_header_map hm then Inr []
              else parse_rows hm (drop 1 rows) [])"

fun parse_tables :: "table list \<Rightarrow> error + antenna list" where
  "parse_tables [] = Inr []"
| "parse_tables (t # ts) =
     bind_res (parse_table_results t) (\<lambda>antennas.
       if antennas \<noteq> [] then Inr antennas else parse_tables ts)"

definition parse_results :: "soup \<Rightarrow> error + antenna list" where
  "parse_results sp = parse_tables (tables sp)"

section \<open>Pagination Detector (\<open>_has_next_page\<close>)\<close>

text \<open>
  The Unicode character database belongs to the Python runtime, not to the repository; the
  scraper's code reaches it through \<open>str.isdigit\<close>, \<open>int\<close>, the regular expression class
  \<open>\d\<close> and \<open>str.lower\<close>. It is a parameter of the model: \<open>digit c\<close> says that \<open>c\<close> has
  Numeric_Type Digit or Decimal (what \<open>isdigit\<close> tests), \<open>decimal c\<close> is the value of a
  decimal digit (category Nd: what \<open>\d\<close> matches and \<open>int\<close> accepts), \<open>lower\<close> is the
  lower-casing of a string.
\<close>

record unicode =
  digit :: "nat \<Rightarrow> bool"
  decimal :: "nat \<Rightarrow> nat option"
  lower :: "ustring \<Rightarrow> ustring"

definition is_decimal :: "unicode \<Rightarrow> nat \<Rightarrow> bool" where
  "is_decimal u c = (decimal u c \<noteq> None)"

definition py_isdigit :: "unicode \<Rightarrow> ustring \<Rightarrow> bool" where
  "py_isdigit u s = (s \<noteq> [] \<and> list_all (digit u) s)"

text \<open>
  \<open>int(s)\<close> for a string of digit characters, the only strings the scraper passes to it:
  the base-10 value when every character is a decimal digit, \<open>ValueError\<close> otherwise.
\<close>

definition py_int :: "unicode \<Rightarrow> ustring \<Rightarrow> error + int" where
  "py_int u s =
     (if s \<noteq> [] \<and> list_all (is_decimal u) s
      then Inr (fold (\<lambda>c a. 10 * a + int (the (decimal u c))) s 0)
      else Inl ValueError)"

definition lit_Epomeni :: ustring where
  \<comment> \<open>Epsilon pi omicron-tonos mu epsilon nu eta\<close>
  "lit_Epomeni = [917, 960, 972, 956, 949, 957, 951]"

definition lit_Next :: ustring where
  "lit_Next = ascii ''Next''"

definition lit_disabled :: ustring where
  "lit_disabled = ascii ''disabled''"

definition lit_startPage_value :: ustring where
  "lit_startPage_value = ascii ''startPage.value=''"

text \<open>
  The pattern \<open>startPage\.value='?(\d+)'?\<close> tried at the start of \<open>s\<close>; the result is group 1.
  The optional quote (code point 39) is taken when it is there; the engine backtracks to
  leaving it when no digit follows. The digits are the longest run, and the closing
  optional quote never fails.
\<close>

definition match_startPage :: "unicode \<Rightarrow> ustring \<Rightarrow> ustring option" where
  "match_startPage u s =
     (if prefix lit_startPage_value s
      then let r = drop (length lit_startPage_value) s;
               q = (case r of [] \<Rightarrow> [] | c # t \<Rightarrow> if c = 39 then takeWhile (is_decimal u) t else []);
               d = takeWhile (is_decimal u) r
           in if q \<noteq> [] then Some q else if d \<noteq> [] then Some d else None
      else None)"

text \<open>\<open>re.search\<close>: the leftmost position where the pattern matches.\<close>

fun re_search_startPage :: "unicode \<Rightarrow> ustring \<Rightarrow> ustring option" where
  "re_search_startPage u [] = match_startPage u []"
| "re_search_startPage u (c # cs) =
     (case match_startPage u (c # cs) of
        Some g \<Rightarrow> Some g
      | None \<Rightarrow> re_search_startPage u cs)"

text \<open>The loop over the items of the pagination control.\<close>

fun scan_items :: "unicode \<Rightarrow> item list \<Rightarrow> int \<Rightarrow> error + bool" where
  "scan_items u [] current_page_num = Inr False"
| "scan_items u (li # lis) current_page_num =
     (if (py_in lit_Epomeni (li_title li) \<or> py_in lit_Next (li_title li)) \<and>
         lit_disabled \<notin> set (li_class li)
      then Inr True
      else case li_a li of
             None \<Rightarrow> scan_items u lis current_page_num
           | Some a_tag \<Rightarrow>
               bind_res (if py_isdigit u (link_text a_tag)
                         then bind_res (py_int u (link_text a_tag)) (\<lambda>v. Inr (v > current_page_num))
                         else Inr False) (\<lambda>by_text.
               if by_text then Inr True
               else bind_res (case re_search_startPage u (link_onclick a_tag) of
                                None \<Rightarrow> Inr False
                              | Some g \<Rightarrow> bind_res (py_int u g) (\<lambda>v. Inr (v > current_page_num)))
                      (\<lambda>by_onclick.
               if by_onclick then Inr True else scan_items u lis current_page_num)))"

definition has_next_page :: "unicode \<Rightarrow> soup \<Rightarrow> int \<Rightarrow> error + bool" where
  "has_next_page u sp current_page_num =
     (case pagination sp of
        None \<Rightarrow> Inr False
      | Some pagination_items \<Rightarrow> scan_items u pagination_items current_page_num)"

section \<open>Search Session Driver\<close>

text \<open>
  The portal during one run. A request that raises a \<open>requests.RequestException\<close> before
  there is a response (DNS, connect, timeout) answers \<open>None\<close>; an HTTP error status is a
  response that \<open>raise_for_status\<close> turns into the exception. The search page is fetched
  twice (\<open>get_municipality_options\<close>, \<open>_prepare_search_data\<close>) and the two answers may
  differ. Every POST of one run carries another \<open>startPage\<close>, so a function of the form data
  covers a server that keeps state. The content of a response is given as the document
  BeautifulSoup parses it to.
\<close>

record response =
  status_code :: nat
  content :: soup

datatype form_value = Str ustring | Num int

type_synonym form = "(ustring \<times> form_value) list"

record server =
  options_page :: "response option"
  form_page :: "response option"
  results :: "form \<Rightarrow> response option"

definition session_request :: "response option \<Rightarrow> error + response" where
  "session_request answer = (case answer of None \<Rightarrow> Inl RequestException | Some r \<Rightarrow> Inr r)"

definition raise_for_status :: "response \<Rightarrow> error + unit" where
  "raise_for_status r =
     (if 400 \<le> status_code r \<and> status_code r < 600 then Inl RequestException else Inr ())"

text \<open>The truth value of a response is its \<open>ok\<close>: \<open>raise_for_status\<close> does not raise.\<close>

definition response_ok :: "response \<Rightarrow> bool" where
  "response_ok r = (case raise_for_status r of Inl e \<Rightarrow> False | Inr v \<Rightarrow> True)"

text \<open>\<open>try: ... except requests.RequestException\<close>: that exception is handled, any other
  propagates.\<close>

definition except_request :: "error + 'a \<Rightarrow> 'a \<Rightarrow> error + 'a" where
  "except_request body handler =
     (case body of
        Inl e \<Rightarrow> if e = RequestException then Inr handler else Inl e
      | Inr v \<Rightarrow> Inr v)"

definition add_option :: "option_tag \<Rightarrow> (ustring \<times> ustring) list \<Rightarrow> (ustring \<times> ustring) list" where
  "add_option opt options =
     (if opt_value opt \<noteq> [] \<and> opt_text opt \<noteq> [] \<and> opt_value opt \<noteq> []
      then dict_set (opt_text opt) (opt_value opt) options
      else options)"

definition get_municipality_options :: "server \<Rightarrow> error + (ustring \<times> ustring) list" where
  "get_municipality_options srv =
     except_request
       (bind_res (session_request (options_page srv)) (\<lambda>response.
        bind_res (raise_for_status response) (\<lambda>u.
          case municipality_select (content response) of
            Some opts \<Rightarrow> Inr (fold add_option opts [])
          | None \<Rightarrow> Inr [])))
       []"

fun find_municipality_value ::
    "unicode \<Rightarrow> ustring \<Rightarrow> (ustring \<times> ustring) list \<Rightarrow> ustring option" where
  "find_municipality_value u municipality_name [] = None"
| "find_municipality_value u municipality_name ((name, v) # rest) =
     (if py_in (lower u municipality_name) (lower u name) \<or>
         py_in (lower u name) (lower u municipality_name)
      then Some v
      else find_municipality_value u municipality_name rest)"

definition add_hidden :: "hidden_input \<Rightarrow> form \<Rightarrow> form" where
  "add_hidden inp search_data =
     (case inp_name inp of
        None \<Rightarrow> search_data
      | Some n \<Rightarrow> if n \<noteq> [] then dict_set n (Str (inp_value inp)) search_data else search_data)"

definition prepare_search_data :: "server \<Rightarrow> ustring \<Rightarrow> error + form option" where
  "prepare_search_data srv municipality_value =
     except_request
       (bind_res (session_request (form_page srv)) (\<lambda>response.
        bind_res (raise_for_status response) (\<lambda>u.
          Inr (Some (fold add_hidden (hidden_inputs (content response))
                 [(ascii ''address'', Str []),
                  (ascii ''municipality'', Str municipality_value),
                  (ascii ''siteId'', Str [])])))))
       None"

definition make_search_request :: "server \<Rightarrow> form \<Rightarrow> error + response option" where
  "make_search_request srv search_data =
     except_request
       (bind_res (session_request (results srv search_data)) (\<lambda>response.
        bind_res (raise_for_status response) (\<lambda>u. Inr (Some response))))
       None"

text \<open>
  What one scrape does to the world, in order: the POSTs with their form data, the debug
  dumps of a response, the politeness delays.
\<close>

datatype event = Post form | SaveDebug int | Sleep

record scrape_state =
  all_antennas :: "antenna list"
  page_num :: int
  trace :: "event list"

definition page_form :: "form \<Rightarrow> int \<Rightarrow> form" where
  "page_form search_data n =
     dict_set (ascii ''myAction'') (Str (if n = 1 then ascii ''search'' else ascii ''page''))
       (dict_set (ascii ''startPage'') (Num n) search_data)"

text \<open>\<open>if max_pages and page_num > max_pages\<close>: \<open>None\<close> and \<open>0\<close> are false.\<close>

definition max_pages_reached :: "int option \<Rightarrow> int \<Rightarrow> bool" where
  "max_pages_reached max_pages n =
     (case max_pages of None \<Rightarrow> False | Some m \<Rightarrow> m \<noteq> 0 \<and> n > m)"

text \<open>
  Logging, and \<open>_debug_page_structure\<close>, which only logs, change neither the data nor the
  control flow and are left out; the debug dump of a response is kept as an event.
\<close>

text \<open>
  The body of the \<open>try\<close> in the paging loop. It ends with an exception (\<open>Inl\<close>), with \<open>break\<close>
  (\<open>Inr False\<close>) or at its last statement (\<open>Inr True\<close>), in the state reached by then.
\<close>

definition scrape_page ::
    "unicode \<Rightarrow> server \<Rightarrow> bool \<Rightarrow> form \<Rightarrow> scrape_state \<Rightarrow> (error + bool) \<times> scrape_state" where
  "scrape_page u srv debug search_data st =
     (let current_search_data = page_form search_data (page_num st);
          st1 = st\<lparr>trace := trace st @ [Post current_search_data]\<rparr>
      in case make_search_request srv current_search_data of
           Inl e \<Rightarrow> (Inl e, st1)
         | Inr None \<Rightarrow> (Inr False, st1)
         | Inr (Some response) \<Rightarrow>
             if \<not> response_ok response then (Inr False, st1)
             else
               let st2 = (if debug \<and> page_num st \<le> 2
                          then st1\<lparr>trace := trace st1 @ [SaveDebug (page_num st)]\<rparr> else st1);
                   sp = content response
               in case parse_results sp of
                    Inl e \<Rightarrow> (Inl e, st2)
                  | Inr antennas_on_page \<Rightarrow>
                      if antennas_on_page = [] then (Inr False, st2)
                      else
                        let st3 = st2\<lparr>all_antennas := all_antennas st2 @ antennas_on_page\<rparr>
                        in case has_next_page u sp (page_num st) of
                             Inl e \<Rightarrow> (Inl e, st3)
                           | Inr has_next \<Rightarrow>
                               if \<not> has_next then (Inr False, st3)
                               else (Inr True, st3\<lparr>page_num := page_num st + 1,
                                                    trace := trace st3 @ [Sleep]\<rparr>))"

text \<open>
  The loop \<open>while True\<close>. It need not end: the result is \<open>None\<close> when it runs forever,
  \<open>Some (Inr st)\<close> when it leaves the loop in state \<open>st\<close>, \<open>Some (Inl (e, st))\<close> when the
  exception \<open>e\<close> leaves the function.
\<close>

partial_function (option) scrape_loop ::
    "unicode \<Rightarrow> server \<Rightarrow> bool \<Rightarrow> form \<Rightarrow> int option \<Rightarrow> scrape_state
       \<Rightarrow> ((error \<times> scrape_state) + scrape_state) option" where
  "scrape_loop u srv debug search_data max_pages st =
     (if max_pages_reached max_pages (page_num st) then Some (Inr st)
      else case scrape_page u srv debug search_data st of
             (Inl e, st') \<Rightarrow>
               if e = RequestException then Some (Inr st') else Some (Inl (e, st'))
           | (Inr again, st') \<Rightarrow>
               if again then scrape_loop u srv debug search_data max_pages st'
               else Some (Inr st'))"

definition start_state :: scrape_state where
  "start_state = \<lparr>all_antennas = [], page_num = 1, trace = []\<rparr>"

definition scrape_all_pages ::
    "unicode \<Rightarrow> server \<Rightarrow> bool \<Rightarrow> form \<Rightarrow> int option \<Rightarrow> (error + antenna list) option" where
  "scrape_all_pages u srv debug search_data max_pages =
     (case scrape_loop u srv debug search_data max_pages start_state of
        None \<Rightarrow> None
      | Some (Inl (e, st)) \<Rightarrow> Some (Inl e)
      | Some (Inr st) \<Rightarrow> Some (Inr (all_antennas st)))"

definition search_municipality ::
    "unicode \<Rightarrow> server \<Rightarrow> bool \<Rightarrow> ustring \<Rightarrow> int option \<Rightarrow> (error + antenna list) option" where
  "search_municipality u srv debug municipality_name max_pages =
     (case get_municipality_options srv of
        Inl e \<Rightarrow> Some (Inl e)
      | Inr municipality_options \<Rightarrow>
          (case find_municipality_value u municipality_name municipality_options of
             None \<Rightarrow> Some (Inr [])
           | Some municipality_value \<Rightarrow>
               if municipality_value = [] then Some (Inr [])
               else (case prepare_search_data srv municipality_value of
                       Inl e \<Rightarrow> Some (Inl e)
                     | Inr None \<Rightarrow> Some (Inr [])
                     | Inr (Some search_data) \<Rightarrow>
                         if search_data = [] then Some (Inr [])
                         else scrape_all_pages u srv debug search_data max_pages)))"

section \<open>Observations on a run\<close>

text \<open>
  What the properties below read off a trace: the form data of its POSTs in order, the
  number of its delays, the debug dump an iteration adds, and the state in which the loop
  was left (by \<open>return\<close> or by an exception).
\<close>

fun posts :: "event list \<Rightarrow> form list" where
  "posts [] = []"
| "posts (Post f # es) = f # posts es"
| "posts (SaveDebug n # es) = posts es"
| "posts (Sleep # es) = posts es"

definition sleeps :: "event list \<Rightarrow> nat" where
  "sleeps es = length (filter (\<lambda>e. e = Sleep) es)"

definition debug_events :: "bool \<Rightarrow> int \<Rightarrow> event list" where
  "debug_events debug n = (if debug \<and> n \<le> 2 then [SaveDebug n] else [])"

definition final_state :: "(error \<times> scrape_state) + scrape_state \<Rightarrow> scrape_state" where
  "final_state r = (case r of Inl (e, st) \<Rightarrow> st | Inr st \<Rightarrow> st)"

section \<open>The signals of the specification\<close>

text \<open>
  The three signals of the Pagination Detector as the specification words them, for one
  item and the current page \<open>n\<close>: a title with a "next" term on an item not marked disabled;
  a link whose text is a page number greater than \<open>n\<close>; a link whose \<open>onclick\<close> assigns a number
  greater than \<open>n\<close> to \<open>startPage\<close>. \<open>decimal_text\<close> says that the text of the link of an
  item, when \<open>isdigit\<close> accepts it, is made of decimal digits.
\<close>

definition spec_signal :: "unicode \<Rightarrow> int \<Rightarrow> item \<Rightarrow> bool" where
  "spec_signal u n li =
     (((py_in lit_Epomeni (li_title li) \<or> py_in lit_Next (li_title li)) \<and>
        lit_disabled \<notin> set (li_class li)) \<or>
      (case li_a li of
         None \<Rightarrow> False
       | Some a \<Rightarrow>
           (py_isdigit u (link_text a) \<and>
              (case py_int u (link_text a) of Inl e \<Rightarrow> False | Inr v \<Rightarrow> n < v)) \<or>
           (case re_search_startPage u (link_onclick a) of
              None \<Rightarrow> False
            | Some g \<Rightarrow> (case py_int u g of Inl e \<Rightarrow> False | Inr v \<Rightarrow> n < v))))"

definition decimal_text :: "unicode \<Rightarrow> item \<Rightarrow> bool" where
  "decimal_text u li =
     (case li_a li of
        None \<Rightarrow> True
      | Some a \<Rightarrow> \<not> py_isdigit u (link_text a) \<or> list_all (is_decimal u) (link_text a))"

section \<open>The rule list of the specification\<close>

text \<open>
  The specification describes the Header Mapper as an ordered list of rules, the first
  matching rule deciding the field of a cell. \<open>spec_first_match\<close> evaluates such a list;
  \<open>spec_header_rules\<close> is the list in the order the specification gives,
  \<open>source_header_rules\<close> the same rules in the order of the \<open>elif\<close> chain of the source.
\<close>

definition spec_first_match :: "(string \<times> (ustring \<Rightarrow> bool)) list \<Rightarrow> ustring \<Rightarrow> string option" where
  "spec_first_match rules txt = map_option fst (find (\<lambda>(f, p). p txt) rules)"

definition spec_header_rules :: "(string \<times> (ustring \<Rightarrow> bool)) list" where
  "spec_header_rules =
     [(''position_code'', \<lambda>t. py_in lbl_kod t \<and> py_in lbl_thesis t),
      (''sequence'', py_in lbl_kod_thesis),
      (''category'', py_in lbl_category),
      (''company'', py_in lbl_company),
      (''address'', py_in lbl_address),
      (''municipality'', py_in lbl_municipality)]"

definition source_header_rules :: "(string \<times> (ustring \<Rightarrow> bool)) list" where
  "source_header_rules =
     [(''position_code'', \<lambda>t. py_in lbl_kod t \<and> py_in lbl_thesis t),
      (''category'', py_in lbl_category),
      (''company'', py_in lbl_company),
      (''address'', py_in lbl_address),
      (''municipality'', py_in lbl_municipality),
      (''sequence'', py_in lbl_kod_thesis)]"

section \<open>Example documents\<close>

definition th :: "ustring \<Rightarrow> cell" where "th txt = \<lparr>cell_name = TH, cell_text = txt\<rparr>"

definition td :: "ustring \<Rightarrow> cell" where "td txt = \<lparr>cell_name = TD, cell_text = txt\<rparr>"

definition ex_header :: row where
  "ex_header = [th (lbl_kod @ 32 # lbl_thesis), th lbl_category, th lbl_company, th lbl_address,
                th lbl_municipality]"

definition ex_row :: row where "ex_row = [td [49], td [50], td [51], td [52], td [53]]"

definition ex_short_row :: row where "ex_short_row = [td [49]]"

definition ex_record :: antenna where
  "ex_record = \<lparr>sequence = [], position_code = [49], category = [50], company = [51],
                 address = [52], municipality = [53]\<rparr>"

definition ex_overlap :: ustring where "ex_overlap = lbl_kod_thesis @ 32 # lbl_category"

definition ex_dup_header :: row where
  "ex_dup_header = [th lbl_municipality, th lbl_category, th lbl_municipality]"

definition ex_rule_overlap_header :: row where
  "ex_rule_overlap_header = [th lbl_municipality, th (lbl_category @ 32 # lbl_municipality)]"

definition ex_table_short :: table where "ex_table_short = [ex_header, ex_short_row]"

definition ex_table :: table where "ex_table = [ex_header, ex_row]"

definition ex_two_tables :: soup where
  "ex_two_tables = \<lparr>tables = [ex_table_short, ex_table], pagination = None,
                     municipality_select = None, hidden_inputs = []\<rparr>"

text \<open>
  The Unicode tables on the code points below 256 (Latin-1): the decimal digits are
  \<open>0\<close> to \<open>9\<close>; the superscripts two, three and one (U+00B2, U+00B3, U+00B9) are digits
  that are not decimal; the capital letters are lower-cased by adding 32. The examples
  use no other characters where these tables matter.
\<close>

definition latin1 :: unicode where
  "latin1 =
     \<lparr>digit = (\<lambda>c. (48 \<le> c \<and> c \<le> 57) \<or> c = 178 \<or> c = 179 \<or> c = 185),
      decimal = (\<lambda>c. if 48 \<le> c \<and> c \<le> 57 then Some (c - 48) else None),
      lower = map (\<lambda>c. if (65 \<le> c \<and> c \<le> 90) \<or> (192 \<le> c \<and> c \<le> 222 \<and> c \<noteq> 215)
                         then c + 32 else c)\<rparr>"

definition ex_item :: "ustring \<Rightarrow> ustring \<Rightarrow> item" where
  "ex_item txt onclick =
     \<lparr>li_title = [], li_class = [], li_a = Some \<lparr>link_text = txt, link_onclick = onclick\<rparr>\<rparr>"

definition ex_page :: "row list \<Rightarrow> item list option \<Rightarrow> soup" where
  "ex_page data_rows pag =
     \<lparr>tables = [ex_header # data_rows], pagination = pag, municipality_select = None,
      hidden_inputs = []\<rparr>"

definition ex_superscript_page :: soup where
  "ex_superscript_page = ex_page [ex_row] (Some [ex_item [178] []])"

definition ex_page1 :: soup where
  "ex_page1 = ex_page [ex_row, ex_row] (Some [ex_item (ascii ''1'') [], ex_item (ascii ''2'') []])"

definition ex_page2 :: soup where
  "ex_page2 = ex_page [ex_row] (Some [ex_item (ascii ''1'') [], ex_item (ascii ''2'') []])"

definition ex_last_page :: soup where
  "ex_last_page = ex_page [ex_row] None"

definition ex_empty_page :: soup where
  "ex_empty_page = ex_page [] None"

text \<open>
  A portal that serves the given result pages by their \<open>startPage\<close> and fails to connect for
  any other page; its search page offers one municipality and one hidden field.
\<close>

definition ex_results :: "soup list \<Rightarrow> form \<Rightarrow> response option" where
  "ex_results pages f =
     (case map_of f (ascii ''startPage'') of
        Some (Num n) \<Rightarrow>
          if 1 \<le> n \<and> n \<le> int (length pages)
          then Some \<lparr>status_code = 200, content = pages ! (nat n - 1)\<rparr>
          else None
      | Some (Str s) \<Rightarrow> None
      | None \<Rightarrow> None)"

definition ex_name :: ustring where
  "ex_name = [935, 945, 955, 954, 953, 948, 941, 969, 957]"

definition ex_search_page :: soup where
  "ex_search_page =
     \<lparr>tables = [], pagination = None,
      municipality_select =
        Some [\<lparr>opt_value = ascii ''12'',
               opt_text = ex_name\<rparr>],
      hidden_inputs = [\<lparr>inp_name = Some (ascii ''token''), inp_value = ascii ''t''\<rparr>]\<rparr>"

definition ex_server :: "soup list \<Rightarrow> server" where
  "ex_server pages =
     \<lparr>options_page = Some \<lparr>status_code = 200, content = ex_search_page\<rparr>,
      form_page = Some \<lparr>status_code = 200, content = ex_search_page\<rparr>,
      results = ex_results pages\<rparr>"

section \<open>Properties of the Header Mapper\<close>

lemma bind_res_simps [simp]:
  "bind_res (Inl e) f = Inl e" "bind_res (Inr v) f = f v"
  by (simp_all add: bind_res_def)

lemma dict_in_set [simp]: "dict_in k (dict_set k' v d) = (k = k' \<or> dict_in k d)"
  by (auto simp: dict_in_def dict_set_def update_conv')

lemma map_of_dict_set [simp]: "map_of (dict_set k v d) = (map_of d)(k \<mapsto> v)"
  by (simp add: dict_set_def update_conv')

lemma dict_in_Nil [simp]: "\<not> dict_in k []"
  by (simp add: dict_in_def)

lemma map_of_assign_header:
  "map_of (assign_header i txt hm) f =
     (if dict_in f (assign_header i txt []) then Some i else map_of hm f)"
  by (simp add: assign_header_def)

lemma map_table_headers_snoc:
  "map_table_headers (cs @ [c]) = assign_header (length cs) (cell_text c) (map_table_headers cs)"
  by (simp add: map_table_headers_def th_td_cells_def enumerate_append_eq)

lemma last_hit_snoc:
  "(i < length (cs @ [c]) \<and> P i ((cs @ [c]) ! i) \<and>
      (\<forall>j. i < j \<and> j < length (cs @ [c]) \<longrightarrow> \<not> P j ((cs @ [c]) ! j))) =
   (if P (length cs) c then i = length cs
    else i < length cs \<and> P i (cs ! i) \<and> (\<forall>j. i < j \<and> j < length cs \<longrightarrow> \<not> P j (cs ! j)))"
proof (cases "P (length cs) c")
  case True
  show ?thesis
  proof (cases "i = length cs")
    case eq: True
    with True show ?thesis by auto
  next
    case neq: False
    have "\<not> (i < length (cs @ [c]) \<and> P i ((cs @ [c]) ! i) \<and>
      (\<forall>j. i < j \<and> j < length (cs @ [c]) \<longrightarrow> \<not> P j ((cs @ [c]) ! j)))"
    proof
      assume h: "i < length (cs @ [c]) \<and> P i ((cs @ [c]) ! i) \<and>
        (\<forall>j. i < j \<and> j < length (cs @ [c]) \<longrightarrow> \<not> P j ((cs @ [c]) ! j))"
      then have lt: "i < length cs" using neq by simp
      from h have a: "\<forall>j. i < j \<and> j < length (cs @ [c]) \<longrightarrow> \<not> P j ((cs @ [c]) ! j)"
        by blast
      from a [rule_format, of "length cs"] lt True show False by simp
    qed
    with True neq show ?thesis by simp
  qed
next
  case False
  have "\<And>j. j < length cs \<Longrightarrow> (cs @ [c]) ! j = cs ! j"
    by (simp add: nth_append)
  then show ?thesis using False
    by (auto simp: less_Suc_eq)
qed

text \<open>
  Claim C10 (as amended). When several header cells are assigned to the same field by the
  first-match chain, the header map holds the column index of the last of them: field \<open>f\<close>
  maps to \<open>i\<close> exactly when cell \<open>i\<close> is assigned to \<open>f\<close> and no later cell is. (A cell is
  assigned to \<open>f\<close> when the chain, run on that cell alone, sets \<open>f\<close>; a cell that passes the
  test of \<open>f\<close> but is taken by an earlier rule of the chain is not assigned to \<open>f\<close>.)
\<close>

theorem map_table_headers_last_wins:
  "(map_of (map_table_headers cells) f = Some i) =
     (i < length cells \<and> dict_in f (assign_header i (cell_text (cells ! i)) []) \<and>
      (\<forall>j. i < j \<and> j < length cells \<longrightarrow>
         \<not> dict_in f (assign_header j (cell_text (cells ! j)) [])))"
proof (induction cells rule: rev_induct)
  case Nil
  show ?case by (simp add: map_table_headers_def th_td_cells_def)
next
  case (snoc c cs)
  have "(map_of (map_table_headers (cs @ [c])) f = Some i) =
        (if dict_in f (assign_header (length cs) (cell_text c) []) then i = length cs
         else map_of (map_table_headers cs) f = Some i)"
    by (auto simp: map_table_headers_snoc map_of_assign_header)
  then show ?case
    unfolding snoc.IH
      last_hit_snoc [of i cs c "\<lambda>j x. dict_in f (assign_header j (cell_text x) [])"]
    by simp
qed

lemmas label_defs = lbl_kod_def lbl_thesis_def lbl_category_def lbl_company_def lbl_address_def
  lbl_municipality_def lbl_kod_thesis_def

lemma ex_header_map:
  "map_table_headers ex_header =
     [(''position_code'', 0), (''category'', 1), (''company'', 2), (''address'', 3),
      (''municipality'', 4)]"
  by (simp add: map_table_headers_def th_td_cells_def ex_header_def th_def assign_header_def
      label_defs dict_set_def)

theorem map_table_headers_last_wins_witness:
  "dict_in ''municipality'' (assign_header 0 (cell_text (ex_dup_header ! 0)) []) \<and>
   dict_in ''municipality'' (assign_header 2 (cell_text (ex_dup_header ! 2)) []) \<and>
   map_of (map_table_headers ex_dup_header) ''municipality'' = Some 2"
  using map_table_headers_last_wins [of ex_dup_header "''municipality''" 2]
  by (simp add: ex_dup_header_def th_def assign_header_def label_defs)

text \<open>
  Claim C10 as stated fails: both cells of \<open>ex_rule_overlap_header\<close> pass the municipality
  test, the second one is taken by the category rule, which comes first in the chain, and
  municipality maps to the first cell, not to the last cell matching its rule.
\<close>

theorem last_matching_cell_counterexample:
  "py_in lbl_municipality (cell_text (ex_rule_overlap_header ! 0)) \<and>
   py_in lbl_municipality (cell_text (ex_rule_overlap_header ! 1)) \<and>
   map_of (map_table_headers ex_rule_overlap_header) ''municipality'' = Some 0 \<and>
   map_table_headers ex_rule_overlap_header = [(''municipality'', 0), (''category'', 1)]"
  by (simp add: ex_rule_overlap_header_def th_def map_table_headers_def th_td_cells_def
      assign_header_def label_defs dict_set_def)

text \<open>
  Claim C2 (as amended). The rules are tried per cell in the order of the source:
  position_code, category, company, address, municipality and last sequence; the first
  matching rule decides, so a cell is assigned to at most one field, and a cell matching the
  sequence rule and another rule is assigned to the other field.
\<close>

theorem assign_header_first_match:
  "assign_header i txt hm =
     (case spec_first_match source_header_rules txt of
        None \<Rightarrow> hm
      | Some f \<Rightarrow> dict_set f i hm) \<and>
   length (filter (\<lambda>f. dict_in f (assign_header i txt []))
             [''sequence'', ''position_code'', ''category'', ''company'', ''address'',
              ''municipality'']) \<le> 1 \<and>
   dict_in ''sequence'' (assign_header i txt []) =
     (py_in lbl_kod_thesis txt \<and> \<not> (py_in lbl_kod txt \<and> py_in lbl_thesis txt) \<and>
      \<not> py_in lbl_category txt \<and> \<not> py_in lbl_company txt \<and>
      \<not> py_in lbl_address txt \<and> \<not> py_in lbl_municipality txt)"
  by (simp add: assign_header_def spec_first_match_def source_header_rules_def)

text \<open>
  Claim C2 as stated fails: the text \<open>lbl_kod_thesis\<close>, a space, \<open>lbl_category\<close> matches the
  sequence rule and the category rule; the order of the specification assigns it to
  sequence, the source assigns it to category.
\<close>

theorem header_priority_counterexample:
  "py_in lbl_kod_thesis ex_overlap \<and> py_in lbl_category ex_overlap \<and>
   spec_first_match spec_header_rules ex_overlap = Some ''sequence'' \<and>
   map_table_headers [th ex_overlap] = [(''category'', 0)]"
  by (simp add: ex_overlap_def label_defs spec_first_match_def spec_header_rules_def
      map_table_headers_def th_td_cells_def th_def assign_header_def dict_set_def)

section \<open>Properties of the Row Extractor\<close>

lemma validate_header_map_conv:
  "validate_header_map hm =
     (dict_in ''position_code'' hm \<and> dict_in ''company'' hm \<and>
      dict_in ''address'' hm \<and> dict_in ''municipality'' hm)"
  by (simp add: validate_header_map_def required_headers_def)

lemma py_max_upper:
  assumes "py_max xs = Inr m" and "x \<in> set xs"
  shows "x \<le> m"
proof (cases xs)
  case Nil
  with assms show ?thesis by simp
next
  case (Cons a r)
  from assms(1) have "m = fold max r a"
    by (simp add: py_max_def Cons)
  then have "m = Max (set xs)"
    by (simp only: Cons Max.set_eq_fold)
  with assms(2) show ?thesis by simp
qed

lemma dict_in_values:
  assumes "map_of hm k = Some v"
  shows "v \<in> set (dict_values hm)"
  using map_of_SomeD [OF assms] by (force simp: dict_values_def)

lemma py_max_total:
  assumes "dict_in k hm"
  shows "\<exists>m. py_max (dict_values hm) = Inr m"
  using assms by (cases hm) (simp_all add: py_max_def dict_values_def dict_in_def)

lemma field_at:
  assumes "map_of hm k = Some v" and "v < length cells"
  shows "bind_res (dict_item hm k) (cell_at cells) = Inr (cell_text (cells ! v))"
    and "(if dict_in k hm then cell_at cells (dict_get hm k 0) else Inr []) =
           Inr (cell_text (cells ! v))"
  using assms by (simp_all add: dict_item_def cell_at_def dict_in_def dict_get_def)

lemma optional_field_at:
  assumes "\<And>v. map_of hm k = Some v \<Longrightarrow> v < length cells"
  shows "\<exists>t. (if dict_in k hm then cell_at cells (dict_get hm k 0) else Inr []) = Inr t"
  using assms by (cases "map_of hm k") (simp_all add: cell_at_def dict_in_def dict_get_def)

lemma extract_antenna_data_total:
  assumes valid: "validate_header_map hm"
    and bound: "\<And>k v. map_of hm k = Some v \<Longrightarrow> v < length cells"
  shows "\<exists>a. extract_antenna_data cells hm = Inr a"
proof -
  from valid obtain p c a m where
    keys: "map_of hm ''position_code'' = Some p" "map_of hm ''company'' = Some c"
      "map_of hm ''address'' = Some a" "map_of hm ''municipality'' = Some m"
    by (auto simp: validate_header_map_conv dict_in_def)
  from optional_field_at [of hm "''sequence''" cells] bound obtain s where
    s: "(if dict_in ''sequence'' hm then cell_at cells (dict_get hm ''sequence'' 0) else Inr [])
          = Inr s" by blast
  from optional_field_at [of hm "''category''" cells] bound obtain g where
    g: "(if dict_in ''category'' hm then cell_at cells (dict_get hm ''category'' 0) else Inr [])
          = Inr g" by blast
  show ?thesis
    unfolding extract_antenna_data_def s g
      field_at(1) [OF keys(1) bound [OF keys(1)]] field_at(1) [OF keys(2) bound [OF keys(2)]]
      field_at(1) [OF keys(3) bound [OF keys(3)]] field_at(1) [OF keys(4) bound [OF keys(4)]]
    by simp
qed

lemma parse_row_valid:
  assumes valid: "validate_header_map hm"
  shows "\<exists>m. py_max (dict_values hm) = Inr m \<and>
           (\<forall>k v. map_of hm k = Some v \<longrightarrow> v \<le> m) \<and>
           (length (td_cells r) \<le> m \<longrightarrow> parse_row hm r antennas = Inr antennas) \<and>
           (m < length (td_cells r) \<longrightarrow>
              (\<exists>a. extract_antenna_data (td_cells r) hm = Inr a \<and>
                   parse_row hm r antennas = Inr (antennas @ [a])))"
proof -
  from valid have "dict_in ''position_code'' hm"
    by (simp add: validate_header_map_conv)
  from py_max_total [OF this] obtain m where m: "py_max (dict_values hm) = Inr m" ..
  have le: "v \<le> m" if "map_of hm k = Some v" for k v
    by (rule py_max_upper [OF m dict_in_values [OF that]])
  have skip: "length (td_cells r) \<le> m \<Longrightarrow> parse_row hm r antennas = Inr antennas"
    by (simp add: parse_row_def m)
  have take: "\<exists>a. extract_antenna_data (td_cells r) hm = Inr a \<and>
                parse_row hm r antennas = Inr (antennas @ [a])"
    if long: "m < length (td_cells r)"
  proof -
    have b: "v < length (td_cells r)" if "map_of hm k = Some v" for k v
      using le [OF that] long by simp
    have "\<exists>a. extract_antenna_data (td_cells r) hm = Inr a"
      by (rule extract_antenna_data_total [OF valid]) (rule b, assumption)
    then obtain a where a: "extract_antenna_data (td_cells r) hm = Inr a" ..
    then show ?thesis using long by (simp add: parse_row_def m)
  qed
  show ?thesis
  proof (intro exI [of _ m] conjI allI impI)
    show "py_max (dict_values hm) = Inr m" by (rule m)
    show "v \<le> m" if "map_of hm k = Some v" for k v by (rule le [OF that])
    show "parse_row hm r antennas = Inr antennas" if "length (td_cells r) \<le> m"
      by (rule skip [OF that])
    show "\<exists>a. extract_antenna_data (td_cells r) hm = Inr a \<and>
            parse_row hm r antennas = Inr (antennas @ [a])" if "m < length (td_cells r)"
      by (rule take [OF that])
  qed
qed

text \<open>
  Claim C4. For every data row and every valid header map: the maximum \<open>m\<close> over all the
  column indices of the map (optional fields included) exists; a row with at most \<open>m\<close> cells
  is skipped and adds no record; a row with more cells is extracted without any exception,
  so no cell access is out of bounds, and adds exactly one record.
\<close>

theorem row_extraction_in_bounds:
  assumes "validate_header_map hm"
  shows "\<exists>m. py_max (dict_values hm) = Inr m \<and>
           (\<forall>k v. map_of hm k = Some v \<longrightarrow> v \<le> m) \<and>
           (length (td_cells r) \<le> m \<longrightarrow> parse_row hm r antennas = Inr antennas) \<and>
           (m < length (td_cells r) \<longrightarrow>
              (\<exists>a. extract_antenna_data (td_cells r) hm = Inr a \<and>
                   parse_row hm r antennas = Inr (antennas @ [a])))"
  by (rule parse_row_valid [OF assms])

lemma ex_header_valid: "validate_header_map (map_table_headers ex_header)"
  by (simp add: ex_header_map validate_header_map_conv dict_in_def)

theorem row_extraction_in_bounds_witness:
  "validate_header_map (map_table_headers ex_header) \<and>
   parse_row (map_table_headers ex_header) ex_row [] = Inr [ex_record] \<and>
   parse_row (map_table_headers ex_header) ex_short_row [] = Inr []"
proof -
  let ?hm = "map_table_headers ex_header"
  have mx: "py_max (dict_values ?hm) = Inr 4"
    by (simp add: ex_header_map dict_values_def py_max_def)
  have ex: "extract_antenna_data (td_cells ex_row) ?hm = Inr ex_record"
    by (simp add: ex_header_map ex_row_def td_cells_def td_def extract_antenna_data_def
        dict_in_def dict_get_def dict_item_def cell_at_def ex_record_def)
  have l: "length (td_cells ex_row) = 5" "length (td_cells ex_short_row) = 1"
    by (simp_all add: ex_row_def ex_short_row_def td_cells_def td_def)
  from row_extraction_in_bounds [OF ex_header_valid, of ex_row "[]"] mx ex l
  have "parse_row ?hm ex_row [] = Inr [ex_record]" by auto
  moreover from row_extraction_in_bounds [OF ex_header_valid, of ex_short_row "[]"] mx l
  have "parse_row ?hm ex_short_row [] = Inr []" by auto
  ultimately show ?thesis using ex_header_valid by simp
qed

section \<open>Properties of the Table Locator\<close>

lemma ex_table_short_records: "parse_table_results ex_table_short = Inr []"
  by (simp add: parse_table_results_def ex_table_short_def ex_header_map Let_def
      validate_header_map_conv dict_in_def parse_row_def dict_values_def py_max_def ex_short_row_def td_cells_def td_def)

lemma ex_table_records: "parse_table_results ex_table = Inr [ex_record]"
  by (simp add: parse_table_results_def ex_table_def ex_header_map Let_def
      validate_header_map_conv parse_row_def dict_values_def py_max_def ex_row_def td_cells_def
      td_def extract_antenna_data_def dict_in_def dict_get_def dict_item_def cell_at_def ex_record_def)

lemma ex_two_tables_records: "parse_results ex_two_tables = Inr [ex_record]"
  by (simp add: ex_table_short_records ex_table_records parse_results_def ex_two_tables_def
      ex_record_def)

lemma parse_row_total:
  assumes "validate_header_map hm"
  shows "\<exists>rs. parse_row hm r acc = Inr rs"
proof -
  from parse_row_valid [OF assms, of r acc] obtain m where
    skip: "length (td_cells r) \<le> m \<longrightarrow> parse_row hm r acc = Inr acc" and
    take: "m < length (td_cells r) \<longrightarrow>
             (\<exists>a. extract_antenna_data (td_cells r) hm = Inr a \<and>
                  parse_row hm r acc = Inr (acc @ [a]))"
    by blast
  show ?thesis
  proof (cases "length (td_cells r) \<le> m")
    case True
    with skip show ?thesis by simp
  next
    case False
    with take show ?thesis by auto
  qed
qed

lemma parse_rows_total:
  assumes "validate_header_map hm"
  shows "\<exists>rs. parse_rows hm rows acc = Inr rs"
proof (induction rows arbitrary: acc)
  case Nil
  show ?case by simp
next
  case (Cons r rows)
  from parse_row_total [OF assms, of r acc] obtain acc' where
    "parse_row hm r acc = Inr acc'" ..
  with Cons.IH [of acc'] show ?case by simp
qed

lemma parse_table_results_total: "\<exists>rs. parse_table_results t = Inr rs"
  using parse_rows_total by (simp add: parse_table_results_def Let_def)

lemma parse_tables_first_nonempty:
  "\<exists>rs. parse_tables ts = Inr rs \<and>
     (if rs = [] then \<forall>t \<in> set ts. parse_table_results t = Inr []
      else \<exists>before t after. ts = before @ t # after \<and>
             (\<forall>b \<in> set before. parse_table_results b = Inr []) \<and>
             parse_table_results t = Inr rs)"
proof (induction ts)
  case Nil
  show ?case by simp
next
  case (Cons t ts)
  from parse_table_results_total obtain r where r: "parse_table_results t = Inr r" ..
  show ?case
  proof (cases "r = []")
    case False
    have "(t # ts) = [] @ t # ts \<and> (\<forall>b \<in> set []. parse_table_results b = Inr []) \<and>
          parse_table_results t = Inr r"
      using r by simp
    then have "\<exists>before x after. t # ts = before @ x # after \<and>
             (\<forall>b \<in> set before. parse_table_results b = Inr []) \<and>
             parse_table_results x = Inr r"
      by blast
    with r False show ?thesis by simp
  next
    case True
    from Cons.IH obtain rs where rs: "parse_tables ts = Inr rs" and
      c: "if rs = [] then \<forall>t \<in> set ts. parse_table_results t = Inr []
          else \<exists>before t after. ts = before @ t # after \<and>
             (\<forall>b \<in> set before. parse_table_results b = Inr []) \<and>
             parse_table_results t = Inr rs"
      by blast
    have eq: "parse_tables (t # ts) = Inr rs"
      using r True rs by simp
    show ?thesis
    proof (cases "rs = []")
      case e: True
      with c r True eq show ?thesis by simp
    next
      case ne: False
      with c obtain before x after where
        d: "ts = before @ x # after" "\<forall>b \<in> set before. parse_table_results b = Inr []"
           "parse_table_results x = Inr rs"
        by auto
      have "t # ts = (t # before) @ x # after \<and>
            (\<forall>b \<in> set (t # before). parse_table_results b = Inr []) \<and>
            parse_table_results x = Inr rs"
        using d r True by simp
      then have "\<exists>before x after. t # ts = before @ x # after \<and>
             (\<forall>b \<in> set before. parse_table_results b = Inr []) \<and>
             parse_table_results x = Inr rs"
        by blast
      with eq ne show ?thesis by simp
    qed
  qed
qed

text \<open>
  Claim C3. A header map is valid exactly when it has entries for position_code, company,
  address and municipality; setting sequence or category does not change validity, nor does
  anything else as long as the presence of the four required keys is the same; and a table
  whose header map is invalid yields no records and is passed over by the scan of the
  tables.
\<close>

theorem header_map_validity:
  "validate_header_map hm =
     (dict_in ''position_code'' hm \<and> dict_in ''company'' hm \<and>
      dict_in ''address'' hm \<and> dict_in ''municipality'' hm) \<and>
   validate_header_map (dict_set ''sequence'' i hm) = validate_header_map hm \<and>
   validate_header_map (dict_set ''category'' i hm) = validate_header_map hm \<and>
   ((\<forall>k \<in> set required_headers. dict_in k hm' = dict_in k hm) \<longrightarrow>
      validate_header_map hm' = validate_header_map hm) \<and>
   (\<not> validate_header_map (map_table_headers (rows ! 0)) \<longrightarrow>
      parse_table_results rows = Inr [] \<and> parse_tables (rows # ts) = parse_tables ts)"
  by (simp add: validate_header_map_conv required_headers_def parse_table_results_def)

theorem header_map_validity_witness:
  "\<not> validate_header_map (map_table_headers ([[th lbl_category], ex_row] ! 0)) \<and>
   parse_table_results [[th lbl_category], ex_row] = Inr [] \<and>
   list_all (\<lambda>k. dict_in k (dict_set ''sequence'' 5 (map_table_headers ex_header)) =
                  dict_in k (map_table_headers ex_header)) required_headers \<and>
   validate_header_map (dict_set ''sequence'' 5 (map_table_headers ex_header))"
proof -
  let ?hm = "map_table_headers ex_header"
  have inv: "\<not> validate_header_map (map_table_headers ([[th lbl_category], ex_row] ! 0))"
    by (simp add: map_table_headers_def th_td_cells_def th_def assign_header_def label_defs
        validate_header_map_conv)
  have agree: "\<forall>k \<in> set required_headers. dict_in k (dict_set ''sequence'' 5 ?hm) = dict_in k ?hm"
    by (simp add: required_headers_def)
  from header_map_validity [of ?hm 5 "dict_set ''sequence'' 5 ?hm" "[[th lbl_category], ex_row]" "[]"]
    inv agree ex_header_valid
  show ?thesis by (simp add: list_all_iff)
qed

text \<open>
  Claim C5 (as amended). \<open>_parse_results\<close> never raises; it returns the records of the first
  table, in document order, that yields at least one record, and every table before it
  yields none; when no table yields a record, in particular when no table has a valid
  header map, it returns the empty list.
\<close>

theorem parse_results_first_nonempty:
  "\<exists>rs. parse_results sp = Inr rs \<and>
     (if rs = [] then \<forall>t \<in> set (tables sp). parse_table_results t = Inr []
      else \<exists>before t after. tables sp = before @ t # after \<and>
             (\<forall>b \<in> set before. parse_table_results b = Inr []) \<and>
             parse_table_results t = Inr rs) \<and>
     ((\<forall>t \<in> set (tables sp). \<not> validate_header_map (map_table_headers (t ! 0))) \<longrightarrow> rs = [])"
proof -
  from parse_tables_first_nonempty [of "tables sp"] obtain rs where
    rs: "parse_tables (tables sp) = Inr rs" and
    c: "if rs = [] then \<forall>t \<in> set (tables sp). parse_table_results t = Inr []
        else \<exists>before t after. tables sp = before @ t # after \<and>
             (\<forall>b \<in> set before. parse_table_results b = Inr []) \<and>
             parse_table_results t = Inr rs"
    by blast
  have "rs = []" if inv: "\<forall>t \<in> set (tables sp). \<not> validate_header_map (map_table_headers (t ! 0))"
  proof (rule ccontr)
    assume "rs \<noteq> []"
    with c obtain before t after where
      t: "tables sp = before @ t # after" "parse_table_results t = Inr rs" by auto
    from t(1) inv have "\<not> validate_header_map (map_table_headers (t ! 0))" by simp
    then have "parse_table_results t = Inr []"
      by (simp add: parse_table_results_def Let_def)
    with t(2) \<open>rs \<noteq> []\<close> show False by simp
  qed
  with rs c show ?thesis by (simp add: parse_results_def)
qed

theorem parse_results_first_nonempty_witness:
  "\<exists>before t after. tables ex_two_tables = before @ t # after \<and>
     before = [ex_table_short] \<and>
     list_all (\<lambda>b. parse_table_results b = Inr []) before \<and>
     parse_table_results t = Inr [ex_record] \<and>
     parse_results ex_two_tables = Inr [ex_record]"
proof -
  from parse_results_first_nonempty [of ex_two_tables] ex_two_tables_records
  obtain before t after where
    "tables ex_two_tables = before @ t # after"
    "\<forall>b \<in> set before. parse_table_results b = Inr []"
    "parse_table_results t = Inr [ex_record]"
    by auto
  have "tables ex_two_tables = [ex_table_short] @ ex_table # []"
    by (simp add: ex_two_tables_def)
  with ex_table_short_records ex_table_records ex_two_tables_records show ?thesis
    by auto
qed

text \<open>
  Claim C5 as stated fails: the first table of \<open>ex_two_tables\<close> has a valid header map and
  yields no record (its only data row is too short), yet the result is the record of the
  second table, not the empty list.
\<close>

theorem first_valid_table_counterexample:
  "validate_header_map (map_table_headers (ex_table_short ! 0)) \<and>
   parse_table_results ex_table_short = Inr [] \<and>
   tables ex_two_tables = [ex_table_short, ex_table] \<and>
   parse_results ex_two_tables = Inr [ex_record]"
  by (simp add: ex_table_short_records ex_table_records parse_results_def ex_two_tables_def
      ex_header_valid ex_record_def) (simp add: ex_table_short_def ex_header_valid)

section \<open>Properties of the Pagination Detector\<close>

lemmas literal_defs = lit_Epomeni_def lit_Next_def lit_disabled_def lit_startPage_value_def
  ascii_def

lemma py_int_decimal:
  assumes "s \<noteq> []" and "list_all (is_decimal u) s"
  shows "\<exists>v. py_int u s = Inr v"
  using assms by (simp add: py_int_def)

lemma match_startPage_digits:
  assumes "match_startPage u s = Some g"
  shows "g \<noteq> [] \<and> list_all (is_decimal u) g"
proof -
  have tw: "list_all (is_decimal u) (takeWhile (is_decimal u) xs)" for xs
    by (induction xs) simp_all
  from assms show ?thesis
    by (auto simp: match_startPage_def Let_def tw split: if_splits list.splits)
qed

lemma re_search_startPage_digits:
  assumes "re_search_startPage u s = Some g"
  shows "g \<noteq> [] \<and> list_all (is_decimal u) g"
  using assms
proof (induction s)
  case Nil
  then show ?case using match_startPage_digits [of u "[]" g] by simp
next
  case (Cons c cs)
  show ?case
  proof (cases "match_startPage u (c # cs)")
    case None
    with Cons show ?thesis by simp
  next
    case (Some h)
    with Cons.prems have "h = g" by simp
    with Some match_startPage_digits [of u "c # cs" g] show ?thesis by simp
  qed
qed

text \<open>
  When every link text that \<open>isdigit\<close> accepts is made of decimal digits, the detector
  returns, and it returns exactly whether some item shows one of the three signals; with no
  pagination control it returns false.
\<close>

lemma scan_items_signals:
  assumes "list_all (decimal_text u) items"
  shows "scan_items u items n = Inr (list_ex (spec_signal u n) items)"
  using assms
proof (induction items)
  case Nil
  show ?case by simp
next
  case (Cons li lis)
  then have IH: "scan_items u lis n = Inr (list_ex (spec_signal u n) lis)"
    and safe: "decimal_text u li" by simp_all
  show ?case
  proof (cases "(py_in lit_Epomeni (li_title li) \<or> py_in lit_Next (li_title li)) \<and>
                 lit_disabled \<notin> set (li_class li)")
    case True
    then have "spec_signal u n li" by (simp add: spec_signal_def)
    with True show ?thesis by simp
  next
    case nonext: False
    show ?thesis
    proof (cases "li_a li")
      case None
      with nonext have "\<not> spec_signal u n li" by (simp add: spec_signal_def)
      with nonext None IH show ?thesis by auto
    next
      case (Some a)
      let ?b1 = "py_isdigit u (link_text a) \<and>
                   (case py_int u (link_text a) of Inl e \<Rightarrow> False | Inr v \<Rightarrow> n < v)"
      let ?b2 = "case re_search_startPage u (link_onclick a) of
                   None \<Rightarrow> False
                 | Some g \<Rightarrow> (case py_int u g of Inl e \<Rightarrow> False | Inr v \<Rightarrow> n < v)"
      have t1: "(if py_isdigit u (link_text a)
                 then bind_res (py_int u (link_text a)) (\<lambda>v. Inr (v > n))
                 else Inr False) = Inr ?b1"
      proof (cases "py_isdigit u (link_text a)")
        case False
        then show ?thesis by simp
      next
        case True
        with safe Some have "list_all (is_decimal u) (link_text a)"
          by (simp add: decimal_text_def)
        moreover from True have "link_text a \<noteq> []" by (simp add: py_isdigit_def)
        ultimately obtain v where "py_int u (link_text a) = Inr v"
          using py_int_decimal by blast
        with True show ?thesis by simp
      qed
      have t2: "(case re_search_startPage u (link_onclick a) of
                   None \<Rightarrow> Inr False
                 | Some g \<Rightarrow> bind_res (py_int u g) (\<lambda>v. Inr (v > n))) = Inr ?b2"
      proof (cases "re_search_startPage u (link_onclick a)")
        case None
        then show ?thesis by simp
      next
        case (Some g)
        from re_search_startPage_digits [OF Some] py_int_decimal obtain v where
          "py_int u g = Inr v" by blast
        with Some show ?thesis by simp
      qed
      have e1: "scan_items u (li # lis) n =
              (if ?b1 then Inr True else if ?b2 then Inr True else scan_items u lis n)"
        using nonext Some by (simp only: scan_items.simps t1 t2 bind_res_simps option.case if_False)
      have e2: "spec_signal u n li = (?b1 \<or> ?b2)"
        using nonext Some by (auto simp: spec_signal_def)
      show ?thesis
        unfolding e1 list_ex_Cons_iff e2 IH by (cases "?b1"; cases "?b2"; auto)
    qed
  qed
qed

lemma has_next_page_signals:
  assumes "case pagination sp of None \<Rightarrow> True | Some items \<Rightarrow> list_all (decimal_text u) items"
  shows "has_next_page u sp n =
           Inr (case pagination sp of None \<Rightarrow> False
                | Some items \<Rightarrow> list_ex (spec_signal u n) items)"
  using assms scan_items_signals by (simp add: has_next_page_def split: option.splits)

section \<open>Properties of the Search Session Driver\<close>

lemma posts_append [simp]: "posts (xs @ ys) = posts xs @ posts ys"
  by (induction xs rule: posts.induct) simp_all

lemma posts_debug_events [simp]: "posts (debug_events debug n) = []"
  by (simp add: debug_events_def)

lemma sleeps_simps [simp]:
  "sleeps [] = 0" "sleeps (xs @ ys) = sleeps xs + sleeps ys" "sleeps (Post f # es) = sleeps es"
  "sleeps (Sleep # es) = Suc (sleeps es)" "sleeps (debug_events debug n) = 0"
  by (simp_all add: sleeps_def debug_events_def)

lemma start_state_simps [simp]:
  "all_antennas start_state = []" "page_num start_state = 1" "trace start_state = []"
  by (simp_all add: start_state_def)

lemma py_in_self [simp]: "py_in xs xs"
  by (cases xs) simp_all

lemma make_search_request_conv:
  "make_search_request srv f =
     Inr (case results srv f of
            None \<Rightarrow> None
          | Some r \<Rightarrow> if 400 \<le> status_code r \<and> status_code r < 600 then None else Some r)"
  by (simp add: make_search_request_def except_request_def session_request_def
      raise_for_status_def split: option.splits)

lemma make_search_request_ok:
  assumes "make_search_request srv f = Inr (Some r)"
  shows "response_ok r"
  using assms
  by (auto simp: make_search_request_conv response_ok_def raise_for_status_def
      split: option.splits if_splits)

lemma transport_failure_no_response:
  assumes "results srv f = None \<or>
           (\<exists>r. results srv f = Some r \<and> 400 \<le> status_code r \<and> status_code r < 600)"
  shows "make_search_request srv f = Inr None"
  using assms by (auto simp: make_search_request_conv)

lemma scrape_page_no_response:
  assumes "make_search_request srv (page_form sd (page_num st)) = Inr None"
  shows "scrape_page u srv debug sd st =
           (Inr False, st\<lparr>trace := trace st @ [Post (page_form sd (page_num st))]\<rparr>)"
  using assms by (simp add: scrape_page_def Let_def)

lemma scrape_page_response:
  assumes "make_search_request srv (page_form sd (page_num st)) = Inr (Some r)"
  shows "scrape_page u srv debug sd st =
     (let st2 = st\<lparr>trace := trace st @ Post (page_form sd (page_num st)) #
                                 debug_events debug (page_num st)\<rparr>
      in case parse_results (content r) of
           Inl e \<Rightarrow> (Inl e, st2)
         | Inr rs \<Rightarrow>
             if rs = [] then (Inr False, st2)
             else case has_next_page u (content r) (page_num st) of
                    Inl e \<Rightarrow> (Inl e, st2\<lparr>all_antennas := all_antennas st @ rs\<rparr>)
                  | Inr b \<Rightarrow>
                      if b then (Inr True, st2\<lparr>all_antennas := all_antennas st @ rs,
                                   page_num := page_num st + 1, trace := trace st2 @ [Sleep]\<rparr>)
                      else (Inr False, st2\<lparr>all_antennas := all_antennas st @ rs\<rparr>))"
  using assms make_search_request_ok [OF assms]
  by (cases debug; cases "page_num st \<le> 2")
     (simp_all add: scrape_page_def Let_def debug_events_def split: sum.splits)

lemma scrape_page_effects:
  "posts (trace (snd (scrape_page u srv debug sd st))) =
     posts (trace st) @ [page_form sd (page_num st)] \<and>
   page_num (snd (scrape_page u srv debug sd st)) =
     (if fst (scrape_page u srv debug sd st) = Inr True then page_num st + 1 else page_num st) \<and>
   sleeps (trace (snd (scrape_page u srv debug sd st))) =
     sleeps (trace st) + (if fst (scrape_page u srv debug sd st) = Inr True then 1 else 0)"
proof (cases "make_search_request srv (page_form sd (page_num st))")
  case (Inl e)
  then show ?thesis by (simp add: make_search_request_conv)
next
  case (Inr ro)
  show ?thesis
  proof (cases ro)
    case None
    with Inr show ?thesis by (simp add: scrape_page_no_response)
  next
    case (Some r)
    with Inr show ?thesis
      by (simp add: scrape_page_response Let_def split: sum.splits)
  qed
qed

lemma max_pages_reached_mono:
  assumes "max_pages_reached mp k" and "k \<le> n"
  shows "max_pages_reached mp n"
  using assms by (auto simp: max_pages_reached_def split: option.splits)

lemma scrape_loop_reached:
  assumes "max_pages_reached mp (page_num st)"
  shows "scrape_loop u srv debug sd mp st = Some (Inr st)"
  using assms by (subst scrape_loop.simps) simp

lemma scrape_loop_step:
  assumes "\<not> max_pages_reached mp (page_num st)"
    and "scrape_page u srv debug sd st = (res, st')"
  shows "scrape_loop u srv debug sd mp st =
           (case res of
              Inl e \<Rightarrow> if e = RequestException then Some (Inr st') else Some (Inl (e, st'))
            | Inr again \<Rightarrow> if again then scrape_loop u srv debug sd mp st' else Some (Inr st'))"
  using assms by (subst scrape_loop.simps) (simp split: sum.splits)

lemma scrape_loop_bounded:
  assumes "m \<noteq> 0"
  shows "\<exists>r. scrape_loop u srv debug sd (Some m) st = Some r \<and>
             length (posts (trace (final_state r))) \<le>
               length (posts (trace st)) + nat (m + 1 - page_num st) \<and>
             page_num (final_state r) \<le> max (page_num st) (m + 1)"
proof (induction "nat (m + 1 - page_num st)" arbitrary: st)
  case 0
  then have "m < page_num st" by simp
  with assms have "max_pages_reached (Some m) (page_num st)"
    by (simp add: max_pages_reached_def)
  from scrape_loop_reached [OF this] show ?case
    by (simp add: final_state_def)
next
  case (Suc k)
  then have le: "page_num st \<le> m" by simp
  then have nr: "\<not> max_pages_reached (Some m) (page_num st)"
    by (simp add: max_pages_reached_def)
  obtain res st' where sp: "scrape_page u srv debug sd st = (res, st')"
    by (cases "scrape_page u srv debug sd st")
  from scrape_page_effects [of u srv debug sd st] sp
  have eff: "posts (trace st') = posts (trace st) @ [page_form sd (page_num st)]"
    "page_num st' = (if res = Inr True then page_num st + 1 else page_num st)"
    by simp_all
  note step = scrape_loop_step [OF nr sp]
  show ?case
  proof (cases "res = Inr True")
    case True
    with step have eq: "scrape_loop u srv debug sd (Some m) st =
                        scrape_loop u srv debug sd (Some m) st'" by simp
    have "k = nat (m + 1 - page_num st')" using Suc(2) eff True by simp
    from Suc(1) [OF this] obtain r where
      r: "scrape_loop u srv debug sd (Some m) st' = Some r"
         "length (posts (trace (final_state r))) \<le>
            length (posts (trace st')) + nat (m + 1 - page_num st')"
         "page_num (final_state r) \<le> max (page_num st') (m + 1)"
      by blast
    from r eff True le show ?thesis unfolding eq by auto
  next
    case False
    with step have "\<exists>r. scrape_loop u srv debug sd (Some m) st = Some r \<and> final_state r = st'"
      by (auto simp: final_state_def split: sum.splits)
    with eff False le show ?thesis by auto
  qed
qed

lemma posts_pages:
  "posts (concat (map (\<lambda>k. Post (f k) # debug_events d k @ [Sleep]) ks)) = map f ks"
  by (induction ks) simp_all

lemma scrape_loop_advance:
  assumes "page_num st \<le> n" and "\<not> max_pages_reached mp n"
    and "\<forall>k. page_num st \<le> k \<and> k < n \<longrightarrow>
           make_search_request srv (page_form sd k) = Inr (Some (resp k)) \<and>
           parse_results (content (resp k)) = Inr (recs k) \<and> recs k \<noteq> [] \<and>
           has_next_page u (content (resp k)) k = Inr True"
  shows "scrape_loop u srv debug sd mp st =
         scrape_loop u srv debug sd mp
           (st\<lparr>all_antennas := all_antennas st @ concat (map recs [page_num st..n - 1]),
               page_num := n,
               trace := trace st @
                 concat (map (\<lambda>k. Post (page_form sd k) # debug_events debug k @ [Sleep])
                           [page_num st..n - 1])\<rparr>)"
  using assms
proof (induction "nat (n - page_num st)" arbitrary: st)
  case 0
  then have e: "n = page_num st" by simp
  show ?case unfolding e by simp
next
  case (Suc j)
  let ?p = "page_num st"
  from Suc(2) have lt: "?p < n" by simp
  have nr: "\<not> max_pages_reached mp ?p"
    using Suc.prems(2) max_pages_reached_mono [of mp ?p n] lt by auto
  from Suc.prems(3) lt have pg:
    "make_search_request srv (page_form sd ?p) = Inr (Some (resp ?p))"
    "parse_results (content (resp ?p)) = Inr (recs ?p)" "recs ?p \<noteq> []"
    "has_next_page u (content (resp ?p)) ?p = Inr True"
    by simp_all
  let ?st1 = "st\<lparr>trace := trace st @ Post (page_form sd ?p) # debug_events debug ?p,
                   all_antennas := all_antennas st @ recs ?p, page_num := ?p + 1,
                   trace := (trace st @ Post (page_form sd ?p) # debug_events debug ?p) @ [Sleep]\<rparr>"
  have sp: "scrape_page u srv debug sd st = (Inr True, ?st1)"
    using pg by (simp add: scrape_page_response [OF pg(1)] Let_def)
  from scrape_loop_step [OF nr sp]
  have eq: "scrape_loop u srv debug sd mp st = scrape_loop u srv debug sd mp ?st1" by simp
  have j: "j = nat (n - page_num ?st1)" using Suc(2) by simp
  have le1: "page_num ?st1 \<le> n" using lt by simp
  have pages1: "\<forall>k. page_num ?st1 \<le> k \<and> k < n \<longrightarrow>
           make_search_request srv (page_form sd k) = Inr (Some (resp k)) \<and>
           parse_results (content (resp k)) = Inr (recs k) \<and> recs k \<noteq> [] \<and>
           has_next_page u (content (resp k)) k = Inr True"
    using Suc.prems(3) by simp
  have up: "[?p..n - 1] = ?p # [?p + 1..n - 1]"
    using lt by (simp add: upto_rec1)
  show ?case
    unfolding eq Suc(1) [OF j le1 Suc.prems(2) pages1]
    by (simp add: up)
qed

lemma scrape_loop_stop:
  assumes "1 \<le> n" and "\<not> max_pages_reached mp n"
    and "\<forall>k. 1 \<le> k \<and> k < n \<longrightarrow>
           make_search_request srv (page_form sd k) = Inr (Some (resp k)) \<and>
           parse_results (content (resp k)) = Inr (recs k) \<and> recs k \<noteq> [] \<and>
           has_next_page u (content (resp k)) k = Inr True"
    and "\<And>st. page_num st = n \<Longrightarrow>
           scrape_page u srv debug sd st = (Inr False, st\<lparr>trace := trace st @ evs\<rparr>)"
  shows "scrape_loop u srv debug sd mp start_state =
           Some (Inr \<lparr>all_antennas = concat (map recs [1..n - 1]), page_num = n,
                      trace = concat (map (\<lambda>k. Post (page_form sd k) # debug_events debug k @
                                [Sleep]) [1..n - 1]) @ evs\<rparr>)"
proof -
  let ?stn = "start_state\<lparr>all_antennas := all_antennas start_state @ concat (map recs [page_num start_state..n - 1]),
               page_num := n,
               trace := trace start_state @
                 concat (map (\<lambda>k. Post (page_form sd k) # debug_events debug k @ [Sleep])
                           [page_num start_state..n - 1])\<rparr>"
  have a: "page_num start_state \<le> n" using assms(1) by simp
  have b: "\<forall>k. page_num start_state \<le> k \<and> k < n \<longrightarrow>
           make_search_request srv (page_form sd k) = Inr (Some (resp k)) \<and>
           parse_results (content (resp k)) = Inr (recs k) \<and> recs k \<noteq> [] \<and>
           has_next_page u (content (resp k)) k = Inr True"
    using assms(3) by simp
  have nr: "\<not> max_pages_reached mp (page_num ?stn)" using assms(2) by simp
  have pn: "page_num ?stn = n" by simp
  show ?thesis
    unfolding scrape_loop_advance [OF a assms(2) b, of debug]
      scrape_loop_step [OF nr assms(4) [OF pn]]
    by (simp add: start_state_def)
qed

lemma scrape_loop_no_request_exception:
  assumes "scrape_loop u srv debug sd mp st = Some r"
  shows "\<forall>e s. r = Inl (e, s) \<longrightarrow> e \<noteq> RequestException"
  by (rule scrape_loop.raw_induct
        [where P = "\<lambda>u srv debug sd mp st r. \<forall>e s. r = Inl (e, s) \<longrightarrow> e \<noteq> RequestException",
         OF _ assms])
     (auto split: if_splits prod.splits sum.splits)

lemma scrape_all_pages_conv:
  assumes "scrape_loop u srv debug sd mp start_state = Some (Inr st)"
  shows "scrape_all_pages u srv debug sd mp = Some (Inr (all_antennas st))"
  using assms by (simp add: scrape_all_pages_def)

lemma except_request_caught: "except_request body handler \<noteq> Inl RequestException"
  by (simp add: except_request_def split: sum.splits)

lemma scrape_all_pages_no_request_exception:
  "scrape_all_pages u srv debug sd mp \<noteq> Some (Inl RequestException)"
proof
  assume a: "scrape_all_pages u srv debug sd mp = Some (Inl RequestException)"
  then obtain st where "scrape_loop u srv debug sd mp start_state =
      Some (Inl (RequestException, st))"
    by (auto simp: scrape_all_pages_def split: option.splits sum.splits)
  from scrape_loop_no_request_exception [OF this] show False by simp
qed

lemma search_municipality_no_request_exception:
  "search_municipality u srv debug municipality_name mp \<noteq> Some (Inl RequestException)"
proof -
  have g: "get_municipality_options srv \<noteq> Inl RequestException"
    unfolding get_municipality_options_def by (rule except_request_caught)
  have p: "prepare_search_data srv v \<noteq> Inl RequestException" for v
    unfolding prepare_search_data_def by (rule except_request_caught)
  show ?thesis
    using g p scrape_all_pages_no_request_exception
    by (auto simp: search_municipality_def split: sum.splits option.splits)
qed

subsection \<open>The example portal\<close>

lemma ex_request:
  "make_search_request (ex_server pages) (page_form sd k) =
     Inr (if 1 \<le> k \<and> k \<le> int (length pages)
          then Some \<lparr>status_code = 200, content = pages ! (nat k - 1)\<rparr> else None)"
  by (simp add: make_search_request_conv ex_server_def ex_results_def page_form_def ascii_def)

lemma ex_page_records:
  "parse_results ex_page1 = Inr [ex_record, ex_record]"
  "parse_results ex_page2 = Inr [ex_record]"
  "parse_results ex_last_page = Inr [ex_record]"
  "parse_results ex_empty_page = Inr []"
  by (simp_all add: parse_results_def ex_page1_def ex_page2_def ex_last_page_def
      ex_empty_page_def ex_page_def parse_table_results_def ex_header_map Let_def
      validate_header_map_conv parse_row_def dict_values_def py_max_def ex_row_def td_cells_def
      td_def extract_antenna_data_def dict_in_def dict_get_def dict_item_def cell_at_def
      ex_record_def)

lemma ex_page_next:
  "has_next_page latin1 ex_page1 1 = Inr True"
  "has_next_page latin1 ex_page2 2 = Inr False"
  "has_next_page u ex_last_page n = Inr False"
  by (simp_all add: has_next_page_def ex_page1_def ex_page2_def ex_last_page_def ex_page_def
      ex_item_def literal_defs py_isdigit_def py_int_def is_decimal_def latin1_def
      match_startPage_def)

lemma ex_first_page:
  "scrape_page latin1 (ex_server (ex_page1 # pages)) False sd start_state =
     (Inr True, \<lparr>all_antennas = [ex_record, ex_record], page_num = 2,
                 trace = [Post (page_form sd 1), Sleep]\<rparr>)"
proof -
  have r1: "make_search_request (ex_server (ex_page1 # pages))
              (page_form sd (page_num start_state)) =
              Inr (Some \<lparr>status_code = 200, content = ex_page1\<rparr>)"
    by (simp add: ex_request)
  show ?thesis
    by (subst scrape_page_response [OF r1])
       (simp add: ex_page_records ex_page_next debug_events_def start_state_def)
qed

lemma ex_two_pages_run:
  assumes "\<not> max_pages_reached mp 2"
  shows "scrape_loop latin1 (ex_server [ex_page1, ex_page2]) False sd mp start_state =
     Some (Inr \<lparr>all_antennas = [ex_record, ex_record, ex_record], page_num = 2,
                trace = [Post (page_form sd 1), Sleep, Post (page_form sd 2)]\<rparr>)"
proof -
  let ?srv = "ex_server [ex_page1, ex_page2]"
  let ?st1 = "\<lparr>all_antennas = [ex_record, ex_record], page_num = 2,
               trace = [Post (page_form sd 1), Sleep]\<rparr>"
  let ?st2 = "\<lparr>all_antennas = [ex_record, ex_record, ex_record], page_num = 2,
               trace = [Post (page_form sd 1), Sleep, Post (page_form sd 2)]\<rparr>"
  have nr1: "\<not> max_pages_reached mp (page_num start_state)"
    using assms max_pages_reached_mono [of mp 1 2] by auto
  have nr2: "\<not> max_pages_reached mp (page_num ?st1)" using assms by simp
  have r2: "make_search_request ?srv (page_form sd (page_num ?st1)) =
              Inr (Some \<lparr>status_code = 200, content = ex_page2\<rparr>)"
    by (simp add: ex_request)
  have p2: "scrape_page latin1 ?srv False sd ?st1 = (Inr False, ?st2)"
    by (subst scrape_page_response [OF r2])
       (simp add: ex_page_records ex_page_next debug_events_def)
  show ?thesis
    unfolding scrape_loop_step [OF nr1 ex_first_page] using scrape_loop_step [OF nr2 p2] by simp
qed

text \<open>
  The end-to-end scenario of the specification: two rows on the first page with a link to
  page 2, one row on the second page with no link to a later page, three records in all.
\<close>

lemma ex_search_end_to_end:
  "search_municipality latin1 (ex_server [ex_page1, ex_page2]) False ex_name None =
     Some (Inr [ex_record, ex_record, ex_record])"
proof -
  have nr: "\<not> max_pages_reached None 2" by (simp add: max_pages_reached_def)
  have o: "get_municipality_options (ex_server [ex_page1, ex_page2]) =
             Inr [(ex_name, ascii ''12'')]"
    by (simp add: get_municipality_options_def except_request_def session_request_def
        raise_for_status_def ex_server_def ex_search_page_def add_option_def ascii_def
        dict_set_def ex_name_def)
  have p: "\<exists>sd. prepare_search_data (ex_server [ex_page1, ex_page2]) (ascii ''12'') =
             Inr (Some sd) \<and> sd \<noteq> []"
    by (simp add: prepare_search_data_def except_request_def session_request_def
        raise_for_status_def ex_server_def ex_search_page_def add_hidden_def ascii_def
        dict_set_def)
  then obtain sd where sd: "prepare_search_data (ex_server [ex_page1, ex_page2]) (ascii ''12'') =
             Inr (Some sd)" "sd \<noteq> []" by blast
  have n: "ascii ''12'' \<noteq> []" by (simp add: ascii_def)
  show ?thesis
    using scrape_all_pages_conv [OF ex_two_pages_run [OF nr, of sd]] n
    by (simp add: search_municipality_def o sd)
qed

subsection \<open>Claims\<close>

text \<open>
  Claim C6 fails on the code at a document the code can receive: a pagination item whose
  link text is the superscript two. \<open>isdigit\<close> accepts it, \<open>int\<close> raises \<open>ValueError\<close>, so the
  detector does not return false (no item shows a signal) but raises, and the exception
  leaves \<open>_scrape_all_pages\<close>, which handles \<open>RequestException\<close> only.
\<close>

theorem has_next_page_superscript_digit:
  "py_isdigit latin1 [178] \<and> py_int latin1 [178] = Inl ValueError \<and>
   list_ex (spec_signal latin1 1) [ex_item [178] []] = False \<and>
   has_next_page latin1 ex_superscript_page 1 = Inl ValueError \<and>
   scrape_all_pages latin1 (ex_server [ex_superscript_page]) False [] None =
     Some (Inl ValueError)"
proof -
  let ?srv = "ex_server [ex_superscript_page]"
  have d: "py_isdigit latin1 [178]" "py_int latin1 [178] = Inl ValueError"
    by (simp_all add: py_isdigit_def py_int_def is_decimal_def latin1_def)
  have s: "list_ex (spec_signal latin1 1) [ex_item [178] []] = False"
    by (simp add: spec_signal_def ex_item_def literal_defs d match_startPage_def)
  have h: "has_next_page latin1 ex_superscript_page 1 = Inl ValueError"
    by (simp add: has_next_page_def ex_superscript_page_def ex_page_def ex_item_def
        literal_defs d)
  have rec: "parse_results ex_superscript_page = Inr [ex_record]"
    using ex_page_records(3)
    by (simp add: parse_results_def ex_superscript_page_def ex_last_page_def ex_page_def)
  have nr: "\<not> max_pages_reached None (page_num start_state)"
    by (simp add: max_pages_reached_def)
  have r1: "make_search_request ?srv (page_form [] (page_num start_state)) =
              Inr (Some \<lparr>status_code = 200, content = ex_superscript_page\<rparr>)"
    by (simp add: ex_request)
  have p1: "fst (scrape_page latin1 ?srv False [] start_state) = Inl ValueError"
    by (subst scrape_page_response [OF r1]) (simp add: rec h)
  obtain st' where "scrape_page latin1 ?srv False [] start_state = (Inl ValueError, st')"
    using p1 by (cases "scrape_page latin1 ?srv False [] start_state") simp
  from scrape_loop_step [OF nr this]
  have "scrape_all_pages latin1 ?srv False [] None = Some (Inl ValueError)"
    by (simp add: scrape_all_pages_def)
  with d s h show ?thesis by simp
qed

text \<open>
  Where the bound works: with \<open>max_pages = m\<close> and \<open>m \<ge> 1\<close> the paging loop ends, whatever
  the portal answers and whatever the detector reports, after at most \<open>m\<close> POSTs and without
  going past page \<open>m + 1\<close>; with \<open>m < 0\<close> it ends at once with no request.
\<close>

lemma max_pages_bound:
  "(1 \<le> m \<longrightarrow>
      (\<exists>r. scrape_loop u srv debug sd (Some m) start_state = Some r \<and>
           length (posts (trace (final_state r))) \<le> nat m \<and>
           page_num (final_state r) \<le> m + 1)) \<and>
   (m < 0 \<longrightarrow> scrape_loop u srv debug sd (Some m) start_state = Some (Inr start_state))"
proof (intro conjI impI)
  assume m: "1 \<le> m"
  then have "m \<noteq> 0" by simp
  from scrape_loop_bounded [OF this, of u srv debug sd start_state] m
  show "\<exists>r. scrape_loop u srv debug sd (Some m) start_state = Some r \<and>
           length (posts (trace (final_state r))) \<le> nat m \<and>
           page_num (final_state r) \<le> m + 1"
    by (auto simp: nat_add_distrib)
next
  assume "m < 0"
  then have "max_pages_reached (Some m) (page_num start_state)"
    by (simp add: max_pages_reached_def)
  then show "scrape_loop u srv debug sd (Some m) start_state = Some (Inr start_state)"
    by (rule scrape_loop_reached)
qed

lemma max_pages_bound_example:
  "has_next_page latin1 ex_page1 1 = Inr True \<and>
   (\<exists>r. scrape_loop latin1 (ex_server [ex_page1, ex_page2]) False [] (Some 1) start_state =
           Some r \<and>
        length (posts (trace (final_state r))) \<le> 1) \<and>
   scrape_loop latin1 (ex_server [ex_page1, ex_page2]) False [] (Some (- 1)) start_state =
     Some (Inr start_state)"
  using max_pages_bound [of 1 latin1 "ex_server [ex_page1, ex_page2]" False "[]"]
    max_pages_bound [of "- 1" latin1 "ex_server [ex_page1, ex_page2]" False "[]"]
  by (auto simp: ex_page_next)

text \<open>
  Claim C1 fails on the code at \<open>max_pages = 0\<close>, a bound the command line passes on
  (\<open>--max-pages 0\<close>): the claim, like the docstring (maximum number of pages to scrape,
  \<open>None\<close> for all pages), allows no request, but \<open>0\<close> is a false value for the test
  \<open>if max_pages and page_num > max_pages\<close>, so the bound is ignored and both pages of the
  example portal are requested and scraped.
\<close>

theorem max_pages_zero_ignored:
  "has_next_page latin1 ex_page1 1 = Inr True \<and>
   scrape_loop latin1 (ex_server [ex_page1, ex_page2]) False [] (Some 0) start_state =
     Some (Inr \<lparr>all_antennas = [ex_record, ex_record, ex_record], page_num = 2,
                trace = [Post (page_form [] 1), Sleep, Post (page_form [] 2)]\<rparr>) \<and>
   length (posts [Post (page_form [] 1), Sleep, Post (page_form [] 2)]) = 2"
  using ex_two_pages_run [of "Some 0" "[]"] by (simp add: max_pages_reached_def ex_page_next)






text \<open>
  Transport errors: when the fetch of a page fails in transport (no response, or a response
  with an HTTP error status) the loop ends and returns the state it had, the records
  accumulated so far unchanged and the failed request the only addition to the trace; and
  neither \<open>_scrape_all_pages\<close> nor \<open>search_municipality\<close> ever ends with a
  \<open>RequestException\<close>.
\<close>

lemma transport_error_returns_partial:
  "((results srv (page_form sd (page_num st)) = None \<or>
      (\<exists>r. results srv (page_form sd (page_num st)) = Some r \<and>
           400 \<le> status_code r \<and> status_code r < 600)) \<and>
     \<not> max_pages_reached mp (page_num st) \<longrightarrow>
     scrape_loop u srv debug sd mp st =
       Some (Inr (st\<lparr>trace := trace st @ [Post (page_form sd (page_num st))]\<rparr>))) \<and>
   scrape_all_pages u srv debug sd mp \<noteq> Some (Inl RequestException) \<and>
   search_municipality u srv debug municipality_name mp \<noteq> Some (Inl RequestException)"
proof (intro conjI impI)
  assume a: "(results srv (page_form sd (page_num st)) = None \<or>
      (\<exists>r. results srv (page_form sd (page_num st)) = Some r \<and>
           400 \<le> status_code r \<and> status_code r < 600)) \<and>
     \<not> max_pages_reached mp (page_num st)"
  then have nr: "\<not> max_pages_reached mp (page_num st)" by simp
  from a have "make_search_request srv (page_form sd (page_num st)) = Inr None"
    using transport_failure_no_response by blast
  from scrape_loop_step [OF nr scrape_page_no_response [OF this]]
  show "scrape_loop u srv debug sd mp st =
          Some (Inr (st\<lparr>trace := trace st @ [Post (page_form sd (page_num st))]\<rparr>))"
    by simp
next
  show "scrape_all_pages u srv debug sd mp \<noteq> Some (Inl RequestException)"
    by (rule scrape_all_pages_no_request_exception)
next
  show "search_municipality u srv debug municipality_name mp \<noteq> Some (Inl RequestException)"
    by (rule search_municipality_no_request_exception)
qed

lemma transport_error_returns_partial_example:
  "results (ex_server [ex_page1]) (page_form [] 2) = None \<and>
   scrape_loop latin1 (ex_server [ex_page1]) False [] None
     \<lparr>all_antennas = [ex_record, ex_record], page_num = 2, trace = [Post (page_form [] 1), Sleep]\<rparr> =
   Some (Inr \<lparr>all_antennas = [ex_record, ex_record], page_num = 2,
              trace = [Post (page_form [] 1), Sleep, Post (page_form [] 2)]\<rparr>)"
proof -
  have f: "results (ex_server [ex_page1]) (page_form [] 2) = None"
    by (simp add: ex_server_def ex_results_def page_form_def ascii_def)
  from transport_error_returns_partial
    [of "ex_server [ex_page1]" "[]"
        "\<lparr>all_antennas = [ex_record, ex_record], page_num = 2,
          trace = [Post (page_form [] 1), Sleep]\<rparr>" None latin1 False] f
  show ?thesis by (simp add: max_pages_reached_def)
qed

text \<open>
  At the level of the functions: when pages \<open>1\<close> to \<open>n - 1\<close> were scraped and the fetch of page
  \<open>n\<close> fails in transport, \<open>_scrape_all_pages\<close> returns exactly the records of pages \<open>1\<close> to
  \<open>n - 1\<close>, and \<open>search_municipality\<close>, once the municipality is found and the form prepared,
  returns what \<open>_scrape_all_pages\<close> returns.
\<close>

lemma transport_error_returns_accumulated:
  assumes "1 \<le> n" and "\<not> max_pages_reached mp n"
    and "\<forall>k. 1 \<le> k \<and> k < n \<longrightarrow>
           make_search_request srv (page_form sd k) = Inr (Some (resp k)) \<and>
           parse_results (content (resp k)) = Inr (recs k) \<and> recs k \<noteq> [] \<and>
           has_next_page u (content (resp k)) k = Inr True"
    and "results srv (page_form sd n) = None \<or>
         (\<exists>r. results srv (page_form sd n) = Some r \<and>
              400 \<le> status_code r \<and> status_code r < 600)"
  shows "scrape_all_pages u srv debug sd mp = Some (Inr (concat (map recs [1..n - 1]))) \<and>
         (\<exists>st. scrape_loop u srv debug sd mp start_state = Some (Inr st) \<and>
               posts (trace st) = map (page_form sd) [1..n])"
proof -
  have nores: "make_search_request srv (page_form sd n) = Inr None"
    using assms(4) by (rule transport_failure_no_response)
  have pg: "scrape_page u srv debug sd st =
              (Inr False, st\<lparr>trace := trace st @ [Post (page_form sd n)]\<rparr>)"
    if "page_num st = n" for st
    using scrape_page_no_response [of srv sd st u debug] nores that by simp
  note run = scrape_loop_stop [OF assms(1-3) pg]
  have up: "[1..n] = [1..n - 1] @ [n]"
    using assms(1) upto_rec2 [of 1 n] by simp
  show ?thesis
    using run scrape_all_pages_conv [OF run] by (simp add: posts_pages up)
qed

lemma dict_set_nonempty: "dict_set k v d \<noteq> []"
  by (cases d) (auto simp: dict_set_def)

lemma fold_add_hidden_nonempty:
  assumes "d \<noteq> []"
  shows "fold add_hidden hs d \<noteq> []"
  using assms
  by (induction hs arbitrary: d)
     (simp_all add: add_hidden_def dict_set_nonempty split: option.splits)

lemma prepare_search_data_nonempty:
  assumes "prepare_search_data srv v = Inr (Some sd)"
  shows "sd \<noteq> []"
proof -
  have "fold add_hidden hs [(ascii ''address'', Str []), (ascii ''municipality'', Str v),
          (ascii ''siteId'', Str [])] \<noteq> []" for hs
    by (rule fold_add_hidden_nonempty) simp
  with assms show ?thesis
    by (auto simp: prepare_search_data_def except_request_def session_request_def
        raise_for_status_def bind_res_def split: option.splits sum.splits if_splits)
qed

lemma search_municipality_scrapes:
  assumes "get_municipality_options srv = Inr opts"
    and "find_municipality_value u municipality_name opts = Some v" and "v \<noteq> []"
    and "prepare_search_data srv v = Inr (Some sd)"
  shows "search_municipality u srv debug municipality_name mp =
           scrape_all_pages u srv debug sd mp"
  using assms prepare_search_data_nonempty [OF assms(4)]
  by (simp add: search_municipality_def)

lemma ex_search_setup:
  "\<exists>sd. search_municipality latin1 (ex_server pages) debug ex_name mp =
          scrape_all_pages latin1 (ex_server pages) debug sd mp"
proof -
  have o: "get_municipality_options (ex_server pages) = Inr [(ex_name, ascii ''12'')]"
    by (simp add: get_municipality_options_def except_request_def session_request_def
        raise_for_status_def ex_server_def ex_search_page_def add_option_def ascii_def
        dict_set_def ex_name_def)
  have f: "find_municipality_value latin1 ex_name [(ex_name, ascii ''12'')] = Some (ascii ''12'')"
    by simp
  have n: "ascii ''12'' \<noteq> []" by (simp add: ascii_def)
  have "\<exists>sd. prepare_search_data (ex_server pages) (ascii ''12'') = Inr (Some sd)"
    by (simp add: prepare_search_data_def except_request_def session_request_def
        raise_for_status_def ex_server_def)
  then obtain sd where "prepare_search_data (ex_server pages) (ascii ''12'') = Inr (Some sd)" ..
  from search_municipality_scrapes [OF o f n this] show ?thesis by blast
qed

lemma ex_superscript_next: "has_next_page latin1 ex_superscript_page n = Inl ValueError"
  by (simp add: has_next_page_def ex_superscript_page_def ex_page_def ex_item_def
      literal_defs py_isdigit_def py_int_def is_decimal_def latin1_def)

lemma ex_superscript_records: "parse_results ex_superscript_page = Inr [ex_record]"
  using ex_page_records(3)
  by (simp add: parse_results_def ex_superscript_page_def ex_last_page_def ex_page_def)

lemma ex_superscript_run:
  "scrape_loop latin1 (ex_server [ex_page1, ex_superscript_page]) False sd None start_state =
     Some (Inl (ValueError,
       \<lparr>all_antennas = [ex_record, ex_record, ex_record], page_num = 2,
        trace = [Post (page_form sd 1), Sleep, Post (page_form sd 2)]\<rparr>))"
proof -
  let ?srv = "ex_server [ex_page1, ex_superscript_page]"
  let ?st1 = "\<lparr>all_antennas = [ex_record, ex_record], page_num = 2,
               trace = [Post (page_form sd 1), Sleep]\<rparr>"
  let ?st2 = "\<lparr>all_antennas = [ex_record, ex_record, ex_record], page_num = 2,
               trace = [Post (page_form sd 1), Sleep, Post (page_form sd 2)]\<rparr>"
  have nr1: "\<not> max_pages_reached None (page_num start_state)"
    by (simp add: max_pages_reached_def)
  have nr2: "\<not> max_pages_reached None (page_num ?st1)"
    by (simp add: max_pages_reached_def)
  have r2: "make_search_request ?srv (page_form sd (page_num ?st1)) =
              Inr (Some \<lparr>status_code = 200, content = ex_superscript_page\<rparr>)"
    by (simp add: ex_request)
  have p2: "scrape_page latin1 ?srv False sd ?st1 = (Inl ValueError, ?st2)"
    by (subst scrape_page_response [OF r2])
       (simp add: ex_superscript_records ex_superscript_next debug_events_def)
  show ?thesis
    unfolding scrape_loop_step [OF nr1 ex_first_page] using scrape_loop_step [OF nr2 p2] by simp
qed

text \<open>
  Claim C9 fails on the code at a bad page that is not a transport error, through the
  defect of the pagination detector shown above: the first page of the portal yields two records and a link to page 2,
  the second page yields one record and carries the link text superscript two. The three
  records are accumulated, then \<open>_has_next_page\<close> raises \<open>ValueError\<close>; the loop handles
  \<open>RequestException\<close> only, so the exception leaves \<open>_scrape_all_pages\<close> and
  \<open>search_municipality\<close> and the records already produced are lost.
\<close>

theorem bad_page_discards_records:
  "parse_results ex_page1 = Inr [ex_record, ex_record] \<and>
   parse_results ex_superscript_page = Inr [ex_record] \<and>
   scrape_loop latin1 (ex_server [ex_page1, ex_superscript_page]) False [] None start_state =
     Some (Inl (ValueError,
       \<lparr>all_antennas = [ex_record, ex_record, ex_record], page_num = 2,
        trace = [Post (page_form [] 1), Sleep, Post (page_form [] 2)]\<rparr>)) \<and>
   scrape_all_pages latin1 (ex_server [ex_page1, ex_superscript_page]) False [] None =
     Some (Inl ValueError) \<and>
   search_municipality latin1 (ex_server [ex_page1, ex_superscript_page]) False ex_name None =
     Some (Inl ValueError)"
proof -
  let ?srv = "ex_server [ex_page1, ex_superscript_page]"
  have a: "scrape_all_pages latin1 ?srv False sd None = Some (Inl ValueError)" for sd
    by (simp add: scrape_all_pages_def ex_superscript_run)
  from ex_search_setup [of "[ex_page1, ex_superscript_page]" False None] a
  have "search_municipality latin1 ?srv False ex_name None = Some (Inl ValueError)"
    by auto
  with a [of "[]"] ex_superscript_run [of "[]"] ex_page_records(1) ex_superscript_records
  show ?thesis by simp
qed

end
